theory Spec2Isabelle
  imports Complex_Main "HOL-Library.Word"
begin

section \<open>JavaScript numbers\<close>

text \<open>
  A JavaScript number is modelled as a real number or one of the three special values
  of IEEE-754 arithmetic. Finite results are computed exactly: rounding to binary64 (and
  to binary32 on a store into a \<^verbatim>\<open>Float32Array\<close>), overflow and the sign of zero are
  not modelled. The special values follow the IEEE rules, with every zero taken as
  positive: a non-zero number divided by zero is an infinity, zero divided by zero is
  NaN, and NaN propagates through every operation.
\<close>

datatype jsnum = Fin real | PInf | NInf | NaN

instantiation jsnum :: "{zero, one, plus, uminus, minus, times, inverse}"
begin

definition zero_jsnum :: jsnum where
  "zero_jsnum = Fin 0"

definition one_jsnum :: jsnum where
  "one_jsnum = Fin 1"

fun plus_jsnum :: "jsnum \<Rightarrow> jsnum \<Rightarrow> jsnum" where
  "Fin a + Fin b = Fin (a + b)"
| "NaN + _ = NaN"
| "_ + NaN = NaN"
| "PInf + NInf = NaN"
| "NInf + PInf = NaN"
| "PInf + _ = PInf"
| "_ + PInf = PInf"
| "NInf + _ = NInf"
| "_ + NInf = NInf"

fun uminus_jsnum :: "jsnum \<Rightarrow> jsnum" where
  "- Fin a = Fin (- a)"
| "- PInf = NInf"
| "- NInf = PInf"
| "- NaN = NaN"

definition minus_jsnum :: "jsnum \<Rightarrow> jsnum \<Rightarrow> jsnum" where
  "minus_jsnum a b = a + (- b)"

fun times_jsnum :: "jsnum \<Rightarrow> jsnum \<Rightarrow> jsnum" where
  "Fin a * Fin b = Fin (a * b)"
| "NaN * _ = NaN"
| "_ * NaN = NaN"
| "PInf * Fin b = (if b = 0 then NaN else if 0 < b then PInf else NInf)"
| "NInf * Fin b = (if b = 0 then NaN else if 0 < b then NInf else PInf)"
| "Fin a * PInf = (if a = 0 then NaN else if 0 < a then PInf else NInf)"
| "Fin a * NInf = (if a = 0 then NaN else if 0 < a then NInf else PInf)"
| "PInf * PInf = PInf"
| "PInf * NInf = NInf"
| "NInf * PInf = NInf"
| "NInf * NInf = PInf"

fun divide_jsnum :: "jsnum \<Rightarrow> jsnum \<Rightarrow> jsnum" where
  "divide_jsnum (Fin a) (Fin b) =
     (if b \<noteq> 0 then Fin (a / b)
      else if a = 0 then NaN else if 0 < a then PInf else NInf)"
| "divide_jsnum NaN _ = NaN"
| "divide_jsnum _ NaN = NaN"
| "divide_jsnum (Fin a) PInf = Fin 0"
| "divide_jsnum (Fin a) NInf = Fin 0"
| "divide_jsnum PInf (Fin b) = (if 0 \<le> b then PInf else NInf)"
| "divide_jsnum NInf (Fin b) = (if 0 \<le> b then NInf else PInf)"
| "divide_jsnum PInf PInf = NaN"
| "divide_jsnum PInf NInf = NaN"
| "divide_jsnum NInf PInf = NaN"
| "divide_jsnum NInf NInf = NaN"

definition inverse_jsnum :: "jsnum \<Rightarrow> jsnum" where
  "inverse_jsnum a = divide (Fin 1) a"

instance ..

end

text \<open>\<^verbatim>\<open>Math.exp\<close>.\<close>

fun Math_exp :: "jsnum \<Rightarrow> jsnum" where
  "Math_exp (Fin a) = Fin (exp a)"
| "Math_exp PInf = PInf"
| "Math_exp NInf = Fin 0"
| "Math_exp NaN = NaN"

text \<open>An integer index or count used as a number.\<close>

definition num :: "int \<Rightarrow> jsnum" where
  "num i = Fin (real_of_int i)"

section \<open>Arrays and counting loops\<close>

text \<open>
  The values taken by \<open>i\<close> in \<^verbatim>\<open>for (let i = a; i < b; i++)\<close>, in order. A loop is a
  \<open>fold\<close> of its body over them.
\<close>

definition for_range :: "int \<Rightarrow> int \<Rightarrow> int list" where
  "for_range a b = map (\<lambda>k. a + int k) [0..<nat (b - a)]"

text \<open>
  A read of a typed array outside its bounds yields \<^verbatim>\<open>undefined\<close>, which every use in
  this program turns into NaN by arithmetic; a write outside the bounds is ignored.
\<close>

definition rd :: "jsnum list \<Rightarrow> int \<Rightarrow> jsnum" where
  "rd a i = (if 0 \<le> i \<and> i < int (length a) then a ! nat i else NaN)"

definition wr :: "jsnum list \<Rightarrow> int \<Rightarrow> jsnum \<Rightarrow> jsnum list" where
  "wr a i v = (if 0 \<le> i \<and> i < int (length a) then a[nat i := v] else a)"

text \<open>A read of a sample buffer; the samples themselves are finite numbers.\<close>

definition rdd :: "real list \<Rightarrow> int \<Rightarrow> jsnum" where
  "rdd a i = (if 0 \<le> i \<and> i < int (length a) then Fin (a ! nat i) else NaN)"

text \<open>
  \<^verbatim>\<open>new Float32Array(n)\<close> and \<^verbatim>\<open>new Float64Array(n)\<close> for an integer \<open>n\<close>: a negative
  length raises a RangeError, otherwise the array holds \<open>n\<close> zeros.
\<close>

datatype error = DimensionMismatch | RangeError

definition new_FloatArray :: "int \<Rightarrow> error + jsnum list" where
  "new_FloatArray n = (if n < 0 then Inl RangeError else Inr (replicate (nat n) (Fin 0)))"

section \<open>types.ts\<close>

record SSIMOptions =
  opt_k1 :: "real option"
  opt_k2 :: "real option"
  opt_windowSize :: "nat option"
  opt_L :: "real option"

record ImageData =
  width :: nat
  height :: nat
  data :: "real list"

record SSIMResult =
  mssim :: jsnum
  ssim_map :: "jsnum list"

text \<open>\<^verbatim>\<open>options?.field ?? dflt\<close>.\<close>

definition option_or :: "SSIMOptions option \<Rightarrow> (SSIMOptions \<Rightarrow> 'a option) \<Rightarrow> 'a \<Rightarrow> 'a" where
  "option_or options field dflt =
     (case options of None \<Rightarrow> dflt
      | Some opts \<Rightarrow> (case field opts of None \<Rightarrow> dflt | Some v \<Rightarrow> v))"

section \<open>ssim.ts\<close>

definition DEFAULT_K1 :: real where "DEFAULT_K1 = 0.01"
definition DEFAULT_K2 :: real where "DEFAULT_K2 = 0.03"
definition DEFAULT_WINDOW_SIZE :: nat where "DEFAULT_WINDOW_SIZE = 11"
definition DEFAULT_L :: real where "DEFAULT_L = 255"
definition DEFAULT_SIGMA :: real where "DEFAULT_SIGMA = 1.5"

text \<open>The body of the inner loop of \<^verbatim>\<open>createGaussianKernel\<close>.\<close>

definition kernel_cell :: "int \<Rightarrow> jsnum \<Rightarrow> int \<Rightarrow> int \<Rightarrow> jsnum list \<times> jsnum \<Rightarrow> jsnum list \<times> jsnum" where
  "kernel_cell windowSize sigma y x = (\<lambda>(kern, sum).
     let center = windowSize div 2;
         dx = x - center;
         dy = y - center;
         value = Math_exp (- num (dx * dx + dy * dy) / (Fin 2 * sigma * sigma));
         idx = y * windowSize + x
     in (wr kern idx value, sum + value))"

definition createGaussianKernel :: "nat \<Rightarrow> real \<Rightarrow> jsnum list" where
  "createGaussianKernel windowSize sigma =
     (let kern = replicate (windowSize * windowSize) (Fin 0);
          (kern, sum) =
            fold (\<lambda>y. fold (kernel_cell (int windowSize) (Fin sigma) y) (for_range 0 (int windowSize)))
              (for_range 0 (int windowSize)) (kern, Fin 0)
      in fold (\<lambda>i kern. wr kern i (rd kern i / sum))
           (for_range 0 (int (length kern))) kern)"

text \<open>The body of the inner loop of \<^verbatim>\<open>applyGaussianWindow\<close>.\<close>

definition window_cell ::
  "real list \<Rightarrow> int \<Rightarrow> int \<Rightarrow> int \<Rightarrow> int \<Rightarrow> jsnum list \<Rightarrow> int \<Rightarrow> int \<Rightarrow> jsnum \<times> jsnum \<Rightarrow> jsnum \<times> jsnum" where
  "window_cell dat w x y windowSize kern py px = (\<lambda>(sum, kernelSum).
     let halfSize = windowSize div 2;
         kx = px - x + halfSize;
         ky = py - y + halfSize;
         idx = py * w + px;
         kernelIdx = ky * windowSize + kx;
         weight = rd kern kernelIdx
     in (sum + rdd dat idx * weight, kernelSum + weight))"

definition applyGaussianWindow ::
  "real list \<Rightarrow> int \<Rightarrow> int \<Rightarrow> int \<Rightarrow> int \<Rightarrow> int \<Rightarrow> jsnum list \<Rightarrow> jsnum" where
  "applyGaussianWindow dat w h x y windowSize kern =
     (let halfSize = windowSize div 2;
          xStart = max 0 (x - halfSize);
          xEnd = min w (x + halfSize + 1);
          yStart = max 0 (y - halfSize);
          yEnd = min h (y + halfSize + 1);
          (sum, kernelSum) =
            fold (\<lambda>py. fold (window_cell dat w x y windowSize kern py) (for_range xStart xEnd))
              (for_range yStart yEnd) (Fin 0, Fin 0)
      in sum / kernelSum)"

text \<open>The body of the inner loop of \<^verbatim>\<open>calculateLocalSSIM\<close>.\<close>

definition moment_cell ::
  "real list \<Rightarrow> real list \<Rightarrow> int \<Rightarrow> int \<Rightarrow> int \<Rightarrow> int \<Rightarrow> jsnum list \<Rightarrow> jsnum \<Rightarrow> jsnum \<Rightarrow> int \<Rightarrow> int \<Rightarrow>
   jsnum \<times> jsnum \<times> jsnum \<times> jsnum \<Rightarrow> jsnum \<times> jsnum \<times> jsnum \<times> jsnum" where
  "moment_cell img1 img2 w x y windowSize kern mu1 mu2 py px =
     (\<lambda>(sigma1Sq, sigma2Sq, sigma12, weightSum).
     let halfSize = windowSize div 2;
         kx = px - x + halfSize;
         ky = py - y + halfSize;
         idx = py * w + px;
         kernelIdx = ky * windowSize + kx;
         weight = rd kern kernelIdx;
         val1 = rdd img1 idx;
         val2 = rdd img2 idx
     in (sigma1Sq + weight * (val1 - mu1) * (val1 - mu1),
         sigma2Sq + weight * (val2 - mu2) * (val2 - mu2),
         sigma12 + weight * (val1 - mu1) * (val2 - mu2),
         weightSum + weight))"

definition calculateLocalSSIM ::
  "real list \<Rightarrow> real list \<Rightarrow> int \<Rightarrow> int \<Rightarrow> int \<Rightarrow> int \<Rightarrow> int \<Rightarrow> jsnum list \<Rightarrow> jsnum \<Rightarrow> jsnum \<Rightarrow> jsnum" where
  "calculateLocalSSIM img1 img2 w h x y windowSize kern C1 C2 =
     (let mu1 = applyGaussianWindow img1 w h x y windowSize kern;
          mu2 = applyGaussianWindow img2 w h x y windowSize kern;
          mu1Sq = mu1 * mu1;
          mu2Sq = mu2 * mu2;
          mu1Mu2 = mu1 * mu2;
          halfSize = windowSize div 2;
          xStart = max 0 (x - halfSize);
          xEnd = min w (x + halfSize + 1);
          yStart = max 0 (y - halfSize);
          yEnd = min h (y + halfSize + 1);
          (sigma1Sq, sigma2Sq, sigma12, weightSum) =
            fold (\<lambda>py. fold (moment_cell img1 img2 w x y windowSize kern mu1 mu2 py)
                          (for_range xStart xEnd))
              (for_range yStart yEnd) (Fin 0, Fin 0, Fin 0, Fin 0);
          sigma1Sq = sigma1Sq / weightSum;
          sigma2Sq = sigma2Sq / weightSum;
          sigma12 = sigma12 / weightSum;
          numerator = (Fin 2 * mu1Mu2 + C1) * (Fin 2 * sigma12 + C2);
          denominator = (mu1Sq + mu2Sq + C1) * (sigma1Sq + sigma2Sq + C2)
      in numerator / denominator)"

text \<open>
  The kernel cache, a \<^verbatim>\<open>Map\<close> of the module. Its key is the template string
  \<^verbatim>\<open>`${windowSize}_${sigma}`\<close>, which determines both numbers, so the key is modelled as
  the pair. A stored kernel is an object and therefore truthy: a hit never rebuilds.
\<close>

type_synonym kernel_cache = "nat \<times> real \<rightharpoonup> jsnum list"

definition getOrCreateKernel :: "kernel_cache \<Rightarrow> nat \<Rightarrow> real \<Rightarrow> jsnum list \<times> kernel_cache" where
  "getOrCreateKernel kernelCache windowSize sigma =
     (let key = (windowSize, sigma)
      in case kernelCache key of
           Some kern \<Rightarrow> (kern, kernelCache)
         | None \<Rightarrow>
             (let kern = createGaussianKernel windowSize sigma
              in (kern, kernelCache(key \<mapsto> kern))))"

text \<open>The scan over the valid region, shared in shape by both engines.\<close>

definition scan :: "(int \<Rightarrow> int \<Rightarrow> jsnum) \<Rightarrow> int \<Rightarrow> int \<Rightarrow> int \<Rightarrow> int \<Rightarrow> jsnum list \<Rightarrow> jsnum list \<times> int" where
  "scan f startX endX startY endY ssimMap =
     fold (\<lambda>y. fold (\<lambda>x (ssimMap, idx). (wr ssimMap idx (f x y), idx + 1)) (for_range startX endX))
       (for_range startY endY) (ssimMap, 0)"

definition calculateSSIM ::
  "kernel_cache \<Rightarrow> ImageData \<Rightarrow> ImageData \<Rightarrow> SSIMOptions option \<Rightarrow> (error + SSIMResult) \<times> kernel_cache" where
  "calculateSSIM kernelCache img1 img2 options =
     (if width img1 \<noteq> width img2 \<or> height img1 \<noteq> height img2
      then (Inl DimensionMismatch, kernelCache)
      else
        let k1 = option_or options opt_k1 DEFAULT_K1;
            k2 = option_or options opt_k2 DEFAULT_K2;
            windowSize = option_or options opt_windowSize DEFAULT_WINDOW_SIZE;
            L = option_or options opt_L DEFAULT_L;
            C1 = Fin ((k1 * L) ^ 2);
            C2 = Fin ((k2 * L) ^ 2);
            w = int (width img1);
            h = int (height img1);
            (kern, kernelCache) = getOrCreateKernel kernelCache windowSize DEFAULT_SIGMA;
            halfSize = int windowSize div 2;
            validWidth = w - 2 * halfSize;
            validHeight = h - 2 * halfSize
        in case new_FloatArray (validWidth * validHeight) of
             Inl e \<Rightarrow> (Inl e, kernelCache)
           | Inr ssimMap \<Rightarrow>
               let (ssimMap, idx) =
                     scan (\<lambda>x y. calculateLocalSSIM (data img1) (data img2) w h x y
                                    (int windowSize) kern C1 C2)
                       halfSize (w - halfSize) halfSize (h - halfSize) ssimMap;
                   sum = fold (\<lambda>i sum. sum + rd ssimMap i)
                           (for_range 0 (int (length ssimMap))) (Fin 0);
                   mssim = sum / num (int (length ssimMap))
               in (Inr \<lparr>mssim = mssim, ssim_map = ssimMap\<rparr>, kernelCache))"

definition ssim ::
  "kernel_cache \<Rightarrow> ImageData \<Rightarrow> ImageData \<Rightarrow> SSIMOptions option \<Rightarrow> (error + jsnum) \<times> kernel_cache" where
  "ssim kernelCache img1 img2 options =
     (case calculateSSIM kernelCache img1 img2 options of
        (Inl e, kernelCache) \<Rightarrow> (Inl e, kernelCache)
      | (Inr r, kernelCache) \<Rightarrow> (Inr (mssim r), kernelCache))"

section \<open>fast-ssim.ts\<close>

text \<open>
  The module has its own constants; \<^verbatim>\<open>DEFAULT_K1\<close>, \<^verbatim>\<open>DEFAULT_K2\<close> and \<^verbatim>\<open>DEFAULT_L\<close>
  have the values of those of \<^verbatim>\<open>ssim.ts\<close>, the default window size differs.
\<close>

definition FAST_DEFAULT_WINDOW_SIZE :: nat where "FAST_DEFAULT_WINDOW_SIZE = 8"

text \<open>\<^verbatim>\<open>windowSize >> 1\<close>: the operand is taken as a signed 32-bit integer.\<close>

definition shr1 :: "nat \<Rightarrow> int" where
  "shr1 n = sint (signed_drop_bit 1 (word_of_nat n :: 32 word))"

record IntegralImage =
  integral :: "jsnum list"
  integralSq :: "jsnum list"
  ii_width :: nat
  ii_height :: nat
  ii_stride :: nat

text \<open>The body of the inner loop of \<^verbatim>\<open>buildBoth\<close>.\<close>

definition buildBoth_cell ::
  "real list \<Rightarrow> int \<Rightarrow> int \<Rightarrow> int \<Rightarrow>
   jsnum list \<times> jsnum list \<times> int \<times> jsnum \<times> jsnum \<Rightarrow> jsnum list \<times> jsnum list \<times> int \<times> jsnum \<times> jsnum" where
  "buildBoth_cell dat yOffset prevYOffset x = (\<lambda>(integral, integralSq, dataIdx, rowSum, rowSumSq).
     let value = rdd dat dataIdx;
         valueSq = value * value;
         rowSum = rowSum + value;
         rowSumSq = rowSumSq + valueSq;
         idx = yOffset + x
     in (wr integral idx (rowSum + rd integral (prevYOffset + x)),
         wr integralSq idx (rowSumSq + rd integralSq (prevYOffset + x)),
         dataIdx + 1, rowSum, rowSumSq))"

definition buildBoth_row ::
  "real list \<Rightarrow> int \<Rightarrow> int \<Rightarrow> int \<Rightarrow> jsnum list \<times> jsnum list \<times> int \<Rightarrow> jsnum list \<times> jsnum list \<times> int" where
  "buildBoth_row dat stride w y = (\<lambda>(integral, integralSq, dataIdx).
     let yOffset = y * stride;
         prevYOffset = (y - 1) * stride;
         (integral, integralSq, dataIdx, rowSum, rowSumSq) =
           fold (buildBoth_cell dat yOffset prevYOffset) (for_range 1 (w + 1))
             (integral, integralSq, dataIdx, Fin 0, Fin 0)
     in (integral, integralSq, dataIdx))"

definition buildBoth :: "IntegralImage \<Rightarrow> real list \<Rightarrow> IntegralImage" where
  "buildBoth this dat =
     (let (integral, integralSq, dataIdx) =
            fold (buildBoth_row dat (int (ii_stride this)) (int (ii_width this)))
              (for_range 1 (int (ii_height this) + 1)) (integral this, integralSq this, 0)
      in this\<lparr>integral := integral, integralSq := integralSq\<rparr>)"

definition new_IntegralImage :: "real list \<Rightarrow> nat \<Rightarrow> nat \<Rightarrow> IntegralImage" where
  "new_IntegralImage dat w h =
     (let stride = w + 1;
          size = stride * (h + 1)
      in buildBoth \<lparr>integral = replicate size (Fin 0), integralSq = replicate size (Fin 0),
                    ii_width = w, ii_height = h, ii_stride = stride\<rparr> dat)"

text \<open>The four-corner query shared by \<^verbatim>\<open>getMean\<close>, \<^verbatim>\<open>getMeanSq\<close> and the product table.\<close>

definition corner_mean :: "jsnum list \<Rightarrow> int \<Rightarrow> int \<Rightarrow> int \<Rightarrow> int \<Rightarrow> int \<Rightarrow> jsnum" where
  "corner_mean table stride x1 y1 x2 y2 =
     (let a = rd table (y1 * stride + x1);
          b = rd table (y1 * stride + x2 + 1);
          c = rd table ((y2 + 1) * stride + x1);
          d = rd table ((y2 + 1) * stride + x2 + 1);
          area = (x2 - x1 + 1) * (y2 - y1 + 1)
      in (d - b - c + a) / num area)"

definition getMean :: "IntegralImage \<Rightarrow> int \<Rightarrow> int \<Rightarrow> int \<Rightarrow> int \<Rightarrow> jsnum" where
  "getMean this x1 y1 x2 y2 = corner_mean (integral this) (int (ii_stride this)) x1 y1 x2 y2"

definition getMeanSq :: "IntegralImage \<Rightarrow> int \<Rightarrow> int \<Rightarrow> int \<Rightarrow> int \<Rightarrow> jsnum" where
  "getMeanSq this x1 y1 x2 y2 = corner_mean (integralSq this) (int (ii_stride this)) x1 y1 x2 y2"

record ProductIntegralImage =
  p_integral :: "jsnum list"
  p_stride :: nat

text \<open>The body of the inner loop of \<^verbatim>\<open>buildProduct\<close>.\<close>

definition buildProduct_cell ::
  "real list \<Rightarrow> real list \<Rightarrow> int \<Rightarrow> int \<Rightarrow> int \<Rightarrow> jsnum list \<times> int \<times> jsnum \<Rightarrow> jsnum list \<times> int \<times> jsnum" where
  "buildProduct_cell data1 data2 yOffset prevYOffset x = (\<lambda>(integral, dataIdx, rowSum).
     let rowSum = rowSum + rdd data1 dataIdx * rdd data2 dataIdx;
         dataIdx = dataIdx + 1;
         idx = yOffset + x
     in (wr integral idx (rowSum + rd integral (prevYOffset + x)), dataIdx, rowSum))"

definition buildProduct_row ::
  "real list \<Rightarrow> real list \<Rightarrow> int \<Rightarrow> int \<Rightarrow> int \<Rightarrow> jsnum list \<times> int \<Rightarrow> jsnum list \<times> int" where
  "buildProduct_row data1 data2 stride w y = (\<lambda>(integral, dataIdx).
     let yOffset = y * stride;
         prevYOffset = (y - 1) * stride;
         (integral, dataIdx, rowSum) =
           fold (buildProduct_cell data1 data2 yOffset prevYOffset) (for_range 1 (w + 1))
             (integral, dataIdx, Fin 0)
     in (integral, dataIdx))"

definition buildProduct :: "ProductIntegralImage \<Rightarrow> real list \<Rightarrow> real list \<Rightarrow> nat \<Rightarrow> nat \<Rightarrow> ProductIntegralImage" where
  "buildProduct this data1 data2 w h =
     (let (integral, dataIdx) =
            fold (buildProduct_row data1 data2 (int (p_stride this)) (int w))
              (for_range 1 (int h + 1)) (p_integral this, 0)
      in this\<lparr>p_integral := integral\<rparr>)"

definition new_ProductIntegralImage :: "real list \<Rightarrow> real list \<Rightarrow> nat \<Rightarrow> nat \<Rightarrow> ProductIntegralImage" where
  "new_ProductIntegralImage data1 data2 w h =
     buildProduct \<lparr>p_integral = replicate ((w + 1) * (h + 1)) (Fin 0), p_stride = w + 1\<rparr>
       data1 data2 w h"

definition p_getMean :: "ProductIntegralImage \<Rightarrow> int \<Rightarrow> int \<Rightarrow> int \<Rightarrow> int \<Rightarrow> jsnum" where
  "p_getMean this x1 y1 x2 y2 = corner_mean (p_integral this) (int (p_stride this)) x1 y1 x2 y2"

text \<open>The value stored for the pixel \<open>(x, y)\<close> by the loop of \<^verbatim>\<open>calculateSSIMFast\<close>.\<close>

definition fast_cell ::
  "IntegralImage \<Rightarrow> IntegralImage \<Rightarrow> ProductIntegralImage \<Rightarrow> int \<Rightarrow> int \<Rightarrow> int \<Rightarrow> jsnum \<Rightarrow> jsnum \<Rightarrow>
   int \<Rightarrow> int \<Rightarrow> jsnum" where
  "fast_cell integral1 integral2 integralProd w h halfSize C1 C2 x y =
     (let y1 = max 0 (y - halfSize);
          y2 = min (h - 1) (y + halfSize - 1);
          x1 = max 0 (x - halfSize);
          x2 = min (w - 1) (x + halfSize - 1);
          mu1 = getMean integral1 x1 y1 x2 y2;
          mu2 = getMean integral2 x1 y1 x2 y2;
          meanSq1 = getMeanSq integral1 x1 y1 x2 y2;
          meanSq2 = getMeanSq integral2 x1 y1 x2 y2;
          meanProd = p_getMean integralProd x1 y1 x2 y2;
          mu1Sq = mu1 * mu1;
          mu2Sq = mu2 * mu2;
          mu1Mu2 = mu1 * mu2;
          sigma1Sq = meanSq1 - mu1Sq;
          sigma2Sq = meanSq2 - mu2Sq;
          sigma12 = meanProd - mu1Mu2;
          numerator = (Fin 2 * mu1Mu2 + C1) * (Fin 2 * sigma12 + C2);
          denominator = (mu1Sq + mu2Sq + C1) * (sigma1Sq + sigma2Sq + C2)
      in numerator / denominator)"

text \<open>The summation loop unrolled by four, which leaves \<open>i\<close> for the loop that finishes.\<close>

function sum_unrolled :: "jsnum list \<Rightarrow> int \<Rightarrow> jsnum \<Rightarrow> int \<times> jsnum" where
  "sum_unrolled ssimMap i acc =
     (if i < int (length ssimMap) - 3
      then sum_unrolled ssimMap (i + 4)
             (acc + (rd ssimMap i + rd ssimMap (i + 1) + rd ssimMap (i + 2) + rd ssimMap (i + 3)))
      else (i, acc))"
  by pat_completeness auto
termination
  by (relation "measure (\<lambda>(ssimMap, i, acc). nat (int (length ssimMap) - i))") auto

declare sum_unrolled.simps [simp del]

definition calculateSSIMFast :: "ImageData \<Rightarrow> ImageData \<Rightarrow> SSIMOptions option \<Rightarrow> error + SSIMResult" where
  "calculateSSIMFast img1 img2 options =
     (if width img1 \<noteq> width img2 \<or> height img1 \<noteq> height img2
      then Inl DimensionMismatch
      else
        let k1 = option_or options opt_k1 DEFAULT_K1;
            k2 = option_or options opt_k2 DEFAULT_K2;
            windowSize = option_or options opt_windowSize FAST_DEFAULT_WINDOW_SIZE;
            L = option_or options opt_L DEFAULT_L;
            C1 = Fin ((k1 * L) * (k1 * L));
            C2 = Fin ((k2 * L) * (k2 * L));
            halfSize = shr1 windowSize;
            w = int (width img1);
            h = int (height img1);
            integral1 = new_IntegralImage (data img1) (width img1) (height img1);
            integral2 = new_IntegralImage (data img2) (width img1) (height img1);
            integralProd = new_ProductIntegralImage (data img1) (data img2) (width img1) (height img1);
            startX = halfSize;
            startY = halfSize;
            endX = w - halfSize;
            endY = h - halfSize;
            validWidth = endX - startX;
            validHeight = endY - startY
        in case new_FloatArray (validWidth * validHeight) of
             Inl e \<Rightarrow> Inl e
           | Inr ssimMap \<Rightarrow>
               let (ssimMap, idx) =
                     scan (fast_cell integral1 integral2 integralProd w h halfSize C1 C2)
                       startX endX startY endY ssimMap;
                   len = int (length ssimMap);
                   (i, sum) = sum_unrolled ssimMap 0 (Fin 0);
                   sum = fold (\<lambda>i sum. sum + rd ssimMap i) (for_range i len) sum;
                   mssim = sum / num len
               in Inr \<lparr>mssim = mssim, ssim_map = ssimMap\<rparr>)"

definition ssimFast :: "ImageData \<Rightarrow> ImageData \<Rightarrow> SSIMOptions option \<Rightarrow> error + jsnum" where
  "ssimFast img1 img2 options =
     (case calculateSSIMFast img1 img2 options of
        Inl e \<Rightarrow> Inl e
      | Inr r \<Rightarrow> Inr (mssim r))"

section \<open>Auxiliary notions for the proofs\<close>

text \<open>Exchanging the roles of the two images in the accumulators of \<^verbatim>\<open>calculateLocalSSIM\<close>.\<close>

definition swap4 :: "jsnum \<times> jsnum \<times> jsnum \<times> jsnum \<Rightarrow> jsnum \<times> jsnum \<times> jsnum \<times> jsnum" where
  "swap4 = (\<lambda>(t1, t2, t12, V). (t2, t1, t12, V))"


text \<open>
  The scan of both engines stores one value per pixel at a running index. \<open>cells\<close> lists
  the values in the order the scan computes them, \<open>push\<close> is the store of one value, and
  \<open>overwrite m vs\<close> is the array \<open>m\<close> after the values \<open>vs\<close> have been stored from index 0.
\<close>

definition push :: "jsnum \<Rightarrow> jsnum list \<times> int \<Rightarrow> jsnum list \<times> int" where
  "push v = (\<lambda>(m, idx). (wr m idx v, idx + 1))"

definition cells :: "(int \<Rightarrow> int \<Rightarrow> jsnum) \<Rightarrow> int \<Rightarrow> int \<Rightarrow> int \<Rightarrow> int \<Rightarrow> jsnum list" where
  "cells f startX endX startY endY =
     concat (map (\<lambda>y. map (\<lambda>x. f x y) (for_range startX endX)) (for_range startY endY))"

definition overwrite :: "jsnum list \<Rightarrow> jsnum list \<Rightarrow> jsnum list" where
  "overwrite m vs = map (\<lambda>j. if j < length vs then vs ! j else m ! j) [0..<length m]"

text \<open>The mean of the map as the last lines of \<^verbatim>\<open>calculateSSIM\<close> and of \<^verbatim>\<open>calculateSSIMFast\<close> compute it.\<close>

definition ref_mean :: "jsnum list \<Rightarrow> jsnum" where
  "ref_mean ssimMap =
     fold (\<lambda>i sum. sum + rd ssimMap i) (for_range 0 (int (length ssimMap))) (Fin 0) /
       num (int (length ssimMap))"

definition fast_mean :: "jsnum list \<Rightarrow> jsnum" where
  "fast_mean ssimMap =
     (case sum_unrolled ssimMap 0 (Fin 0) of
        (i, acc) \<Rightarrow> fold (\<lambda>i sum. sum + rd ssimMap i) (for_range i (int (length ssimMap))) acc) /
       num (int (length ssimMap))"



text \<open>
  Summed-area tables, in the words of the specification. \<open>pixel dat w x y\<close> is the sample of
  column \<open>x\<close> and row \<open>y\<close> of a row-major buffer of width \<open>w\<close>; \<open>prefix_sum g x y\<close> is the
  sum of \<open>g\<close> over the rows \<open>[0..y)\<close> and the columns \<open>[0..x)\<close>; \<open>rect_sum\<close> and \<open>rect_mean\<close>
  are the sum and the mean over the rectangle \<open>[x1, x2] \<times> [y1, y2]\<close>, bounds included.
  \<open>filled P s N n\<close> is the table of stride \<open>s\<close> and length \<open>N\<close> whose first \<open>n\<close> entries, in
  row-major order, hold the values of \<open>P\<close> and whose other entries are still zero.
\<close>

definition pixel :: "real list \<Rightarrow> nat \<Rightarrow> nat \<Rightarrow> nat \<Rightarrow> real" where
  "pixel dat w x y = dat ! (y * w + x)"

definition prefix_sum :: "(nat \<Rightarrow> nat \<Rightarrow> real) \<Rightarrow> nat \<Rightarrow> nat \<Rightarrow> real" where
  "prefix_sum g x y = (\<Sum>j<y. \<Sum>i<x. g i j)"

definition rect_sum :: "(nat \<Rightarrow> nat \<Rightarrow> real) \<Rightarrow> nat \<Rightarrow> nat \<Rightarrow> nat \<Rightarrow> nat \<Rightarrow> real" where
  "rect_sum g x1 y1 x2 y2 = (\<Sum>j = y1..y2. \<Sum>i = x1..x2. g i j)"

definition rect_mean :: "(nat \<Rightarrow> nat \<Rightarrow> real) \<Rightarrow> nat \<Rightarrow> nat \<Rightarrow> nat \<Rightarrow> nat \<Rightarrow> real" where
  "rect_mean g x1 y1 x2 y2 = rect_sum g x1 y1 x2 y2 / real ((x2 - x1 + 1) * (y2 - y1 + 1))"

definition filled :: "(nat \<Rightarrow> nat \<Rightarrow> real) \<Rightarrow> nat \<Rightarrow> nat \<Rightarrow> nat \<Rightarrow> jsnum list" where
  "filled P s N n = map (\<lambda>i. if i < n then Fin (P (i mod s) (i div s)) else Fin 0) [0..<N]"

text \<open>
  The Gaussian kernel, in the words of the specification: the weight of the cell \<open>(x, y)\<close>
  is \<open>exp(-((x - c)\<^sup>2 + (y - c)\<^sup>2) / (2 \<sigma>\<^sup>2))\<close> with \<open>c = floor(windowSize / 2)\<close>, and
  \<open>gauss_total\<close> is the sum of the weights over the grid. \<open>kernel_sum\<close> adds the entries of
  a kernel. \<open>cache_ok\<close> holds of a cache whose every entry was built by
  \<^verbatim>\<open>createGaussianKernel\<close> for its key, as is every cache that starts empty and is written
  by \<^verbatim>\<open>getOrCreateKernel\<close> only.
\<close>

definition gauss :: "nat \<Rightarrow> real \<Rightarrow> nat \<Rightarrow> nat \<Rightarrow> real" where
  "gauss windowSize sigma x y =
     (let c = real (windowSize div 2)
      in exp (- ((real x - c) ^ 2 + (real y - c) ^ 2) / (2 * sigma ^ 2)))"

definition gauss_total :: "nat \<Rightarrow> real \<Rightarrow> real" where
  "gauss_total windowSize sigma = (\<Sum>y<windowSize. \<Sum>x<windowSize. gauss windowSize sigma x y)"

definition kernel_sum :: "jsnum list \<Rightarrow> jsnum" where
  "kernel_sum k = fold (\<lambda>v total. total + v) k (Fin 0)"

definition cache_ok :: "kernel_cache \<Rightarrow> bool" where
  "cache_ok kernelCache =
     (\<forall>key kern. kernelCache key = Some kern \<longrightarrow> kern = createGaussianKernel (fst key) (snd key))"

section \<open>Properties of the arithmetic and of loops\<close>

lemma jadd_commute: "(a::jsnum) + b = b + a"
  by (cases a; cases b) simp_all

lemma jmul_commute: "(a::jsnum) * b = b * a"
  by (cases a; cases b) (simp_all add: mult.commute)

lemma jmul_assoc: "(a::jsnum) * b * c = a * (b * c)"
  by (cases a; cases b; cases c)
     (simp_all add: zero_less_mult_iff mult_less_0_iff not_less mult.assoc, (auto simp: not_less zero_less_mult_iff mult_less_0_iff)?)

lemma jmul_swap: "(w::jsnum) * a * b = w * b * a"
  by (simp add: jmul_assoc jmul_commute [of a b])

lemma fold_rel:
  "R s t \<Longrightarrow> (\<And>x s t. x \<in> set xs \<Longrightarrow> R s t \<Longrightarrow> R (f x s) (g x t)) \<Longrightarrow>
   R (fold f xs s) (fold g xs t)"
  by (induction xs arbitrary: s t) simp_all


section \<open>Dimension check\<close>

text \<open>
  C2: when the widths or the heights of the two images differ, \<^verbatim>\<open>calculateSSIM\<close> and
  \<^verbatim>\<open>calculateSSIMFast\<close> raise the dimension-mismatch error. The check is the first
  statement of both functions: the outcome is the error whatever the sample buffers and
  the options are, no result record is produced, and the kernel cache is left as it was,
  so not even the kernel has been looked up.
\<close>

theorem dimension_mismatch_raised:
  "width img1 \<noteq> width img2 \<or> height img1 \<noteq> height img2 \<Longrightarrow>
   calculateSSIM kernelCache img1 img2 options = (Inl DimensionMismatch, kernelCache) \<and>
   calculateSSIMFast img1 img2 options = Inl DimensionMismatch"
  by (simp add: calculateSSIM_def calculateSSIMFast_def)

theorem dimension_mismatch_raised_witness:
  "width \<lparr>width = 2, height = 1, data = [1, 2]\<rparr> \<noteq> width \<lparr>width = 1, height = 1, data = [1]\<rparr> \<and>
   calculateSSIM Map.empty \<lparr>width = 2, height = 1, data = [1, 2]\<rparr>
     \<lparr>width = 1, height = 1, data = [1]\<rparr> None = (Inl DimensionMismatch, Map.empty) \<and>
   calculateSSIMFast \<lparr>width = 2, height = 1, data = [1, 2]\<rparr>
     \<lparr>width = 1, height = 1, data = [1]\<rparr> None = Inl DimensionMismatch"
  using dimension_mismatch_raised [of "\<lparr>width = 2, height = 1, data = [1, 2]\<rparr>"
      "\<lparr>width = 1, height = 1, data = [1]\<rparr>" Map.empty None]
  by simp

section \<open>Symmetry\<close>

lemma moment_cell_swap:
  "moment_cell img2 img1 w x y ws kern mu2 mu1 py px (s2, s1, s12, W) =
   (case moment_cell img1 img2 w x y ws kern mu1 mu2 py px (s1, s2, s12, W) of
      (t1, t2, t12, V) \<Rightarrow> (t2, t1, t12, V))"
  unfolding moment_cell_def Let_def prod.case
  by (rule arg_cong2 [where f = Pair] refl jmul_swap arg_cong2 [where f = plus])+


lemma moment_cell_swap4:
  "moment_cell img2 img1 w x y ws kern mu2 mu1 py px (swap4 s) =
   swap4 (moment_cell img1 img2 w x y ws kern mu1 mu2 py px s)"
proof -
  obtain s1 s2 s12 W where s: "s = (s1, s2, s12, W)"
    by (cases s) auto
  obtain t1 t2 t12 V where t: "moment_cell img1 img2 w x y ws kern mu1 mu2 py px (s1, s2, s12, W) = (t1, t2, t12, V)"
    by (cases "moment_cell img1 img2 w x y ws kern mu1 mu2 py px (s1, s2, s12, W)") auto
  show ?thesis
    unfolding s swap4_def prod.case moment_cell_swap [of img2 img1] t ..
qed

lemma moment_fold_swap4:
  "fold (\<lambda>py. fold (moment_cell img2 img1 w x y ws kern mu2 mu1 py) (xs py)) ys (swap4 s) =
   swap4 (fold (\<lambda>py. fold (moment_cell img1 img2 w x y ws kern mu1 mu2 py) (xs py)) ys s)"
proof -
  have row: "fold (moment_cell img2 img1 w x y ws kern mu2 mu1 py) zs (swap4 t) =
             swap4 (fold (moment_cell img1 img2 w x y ws kern mu1 mu2 py) zs t)" for py zs t
    by (induction zs arbitrary: t) (simp_all add: moment_cell_swap4)
  show ?thesis
    by (induction ys arbitrary: s) (simp_all add: row)
qed

lemma swap4_zero: "swap4 (Fin 0, Fin 0, Fin 0, Fin 0) = (Fin 0, Fin 0, Fin 0, Fin 0)"
  by (simp add: swap4_def)

lemma ssim_formula_commute:
  "(Fin 2 * (mu1 * mu2) + C1) * (Fin 2 * s12 + C2) / ((mu1 * mu1 + mu2 * mu2 + C1) * (s1 + s2 + C2)) =
   (Fin 2 * (mu2 * mu1) + C1) * (Fin 2 * s12 + C2) / ((mu2 * mu2 + mu1 * mu1 + C1) * (s2 + s1 + C2))"
  by (simp only: jmul_commute [of mu1 mu2] jadd_commute [of "mu1 * mu1" "mu2 * mu2"] jadd_commute [of s1 s2])

lemma calculateLocalSSIM_commute:
  "calculateLocalSSIM img1 img2 w h x y ws kern C1 C2 =
   calculateLocalSSIM img2 img1 w h x y ws kern C1 C2"
proof -
  define mu1 where "mu1 = applyGaussianWindow img1 w h x y ws kern"
  define mu2 where "mu2 = applyGaussianWindow img2 w h x y ws kern"
  define ys where "ys = for_range (max 0 (y - ws div 2)) (min h (y + ws div 2 + 1))"
  define xs where "xs = for_range (max 0 (x - ws div 2)) (min w (x + ws div 2 + 1))"
  define r where "r = fold (\<lambda>py. fold (moment_cell img1 img2 w x y ws kern mu1 mu2 py) xs) ys (Fin 0, Fin 0, Fin 0, Fin 0)"
  obtain t1 t2 t12 V where r: "r = (t1, t2, t12, V)"
    by (cases r) auto
  have "fold (\<lambda>py. fold (moment_cell img2 img1 w x y ws kern mu2 mu1 py) xs) ys (Fin 0, Fin 0, Fin 0, Fin 0) = swap4 r"
    using moment_fold_swap4 [of img2 img1 w x y ws kern mu2 mu1 "\<lambda>_. xs" ys "(Fin 0, Fin 0, Fin 0, Fin 0)"]
    by (simp only: swap4_zero r_def)
  then have r': "fold (\<lambda>py. fold (moment_cell img2 img1 w x y ws kern mu2 mu1 py) xs) ys (Fin 0, Fin 0, Fin 0, Fin 0) = (t2, t1, t12, V)"
    by (simp add: r swap4_def)
  have lhs: "calculateLocalSSIM img1 img2 w h x y ws kern C1 C2 =
      (Fin 2 * (mu1 * mu2) + C1) * (Fin 2 * (t12 / V) + C2) / ((mu1 * mu1 + mu2 * mu2 + C1) * (t1 / V + t2 / V + C2))"
    unfolding calculateLocalSSIM_def Let_def
    by (simp only: mu1_def [symmetric] mu2_def [symmetric] xs_def [symmetric] ys_def [symmetric]
          r_def [symmetric] r prod.case)
  have rhs: "calculateLocalSSIM img2 img1 w h x y ws kern C1 C2 =
      (Fin 2 * (mu2 * mu1) + C1) * (Fin 2 * (t12 / V) + C2) / ((mu2 * mu2 + mu1 * mu1 + C1) * (t2 / V + t1 / V + C2))"
    unfolding calculateLocalSSIM_def Let_def
    by (simp only: mu1_def [symmetric] mu2_def [symmetric] xs_def [symmetric] ys_def [symmetric]
          r' prod.case)
  show ?thesis
    unfolding lhs rhs by (rule ssim_formula_commute)
qed

lemma calculateSSIM_commute:
  "calculateSSIM kernelCache img1 img2 options = calculateSSIM kernelCache img2 img1 options"
proof (cases "width img1 = width img2 \<and> height img1 = height img2")
  case True
  have eq: "calculateLocalSSIM (data img1) (data img2) = calculateLocalSSIM (data img2) (data img1)"
    by (intro ext) (rule calculateLocalSSIM_commute)
  show ?thesis
    unfolding calculateSSIM_def eq using True by simp
next
  case False
  then show ?thesis
    unfolding calculateSSIM_def by auto
qed


lemma buildProduct_cell_commute:
  "buildProduct_cell data1 data2 = buildProduct_cell data2 data1"
  by (intro ext) (simp only: buildProduct_cell_def jmul_commute [of "rdd data1 _" "rdd data2 _"])

lemma new_ProductIntegralImage_commute:
  "new_ProductIntegralImage data1 data2 w h = new_ProductIntegralImage data2 data1 w h"
  unfolding new_ProductIntegralImage_def buildProduct_def buildProduct_row_def
  by (simp only: buildProduct_cell_commute [of data1 data2])

lemma fast_formula_commute:
  "(Fin 2 * (mu1 * mu2) + C1) * (Fin 2 * (p - mu1 * mu2) + C2) /
     ((mu1 * mu1 + mu2 * mu2 + C1) * (q1 - mu1 * mu1 + (q2 - mu2 * mu2) + C2)) =
   (Fin 2 * (mu2 * mu1) + C1) * (Fin 2 * (p - mu2 * mu1) + C2) /
     ((mu2 * mu2 + mu1 * mu1 + C1) * (q2 - mu2 * mu2 + (q1 - mu1 * mu1) + C2))"
  by (simp only: jmul_commute [of mu1 mu2] jadd_commute [of "mu1 * mu1" "mu2 * mu2"]
        jadd_commute [of "q1 - mu1 * mu1" "q2 - mu2 * mu2"])

lemma fast_cell_commute:
  "fast_cell integral1 integral2 integralProd w h halfSize C1 C2 x y =
   fast_cell integral2 integral1 integralProd w h halfSize C1 C2 x y"
  unfolding fast_cell_def Let_def by (rule fast_formula_commute)

lemma calculateSSIMFast_commute_same:
  "calculateSSIMFast \<lparr>width = w, height = h, data = d1\<rparr> \<lparr>width = w, height = h, data = d2\<rparr> options =
   calculateSSIMFast \<lparr>width = w, height = h, data = d2\<rparr> \<lparr>width = w, height = h, data = d1\<rparr> options"
proof -
  have eq: "fast_cell i1 i2 = fast_cell i2 i1" for i1 i2
    by (intro ext) (rule fast_cell_commute)
  show ?thesis
    unfolding calculateSSIMFast_def Let_def
    by (simp add: eq [of "new_IntegralImage d1 w h"] new_ProductIntegralImage_commute [of d1 d2]
          cong: sum.case_cong)
qed

lemma calculateSSIMFast_commute:
  "calculateSSIMFast img1 img2 options = calculateSSIMFast img2 img1 options"
proof (cases "width img1 = width img2 \<and> height img1 = height img2")
  case True
  obtain w h d1 where img1: "img1 = \<lparr>width = w, height = h, data = d1\<rparr>"
    by (cases img1) auto
  obtain d2 where img2: "img2 = \<lparr>width = w, height = h, data = d2\<rparr>"
    using True img1 by (cases img2) auto
  show ?thesis
    unfolding img1 img2 by (rule calculateSSIMFast_commute_same)
next
  case False
  then show ?thesis
    unfolding calculateSSIMFast_def by auto
qed


text \<open>
  C3: for two images of equal dimensions and any options, the scalar result of the
  reference engine on \<open>(a, b)\<close> equals its result on \<open>(b, a)\<close>, and so does the scalar
  result of the fast engine.
\<close>

theorem engines_symmetric:
  "width a = width b \<Longrightarrow> height a = height b \<Longrightarrow>
   ssim kernelCache a b options = ssim kernelCache b a options \<and>
   ssimFast a b options = ssimFast b a options"
  unfolding ssim_def ssimFast_def
  by (simp only: calculateSSIM_commute [of kernelCache a b] calculateSSIMFast_commute [of a b])

theorem engines_symmetric_witness:
  "width \<lparr>width = 2, height = 2, data = [1, 2, 3, 4]\<rparr> =
     width \<lparr>width = 2, height = 2, data = [4, 3, 2, 1]\<rparr> \<and>
   height \<lparr>width = 2, height = 2, data = [1, 2, 3, 4]\<rparr> =
     height \<lparr>width = 2, height = 2, data = [4, 3, 2, 1]\<rparr> \<and>
   ssim Map.empty \<lparr>width = 2, height = 2, data = [1, 2, 3, 4]\<rparr>
     \<lparr>width = 2, height = 2, data = [4, 3, 2, 1]\<rparr> None =
   ssim Map.empty \<lparr>width = 2, height = 2, data = [4, 3, 2, 1]\<rparr>
     \<lparr>width = 2, height = 2, data = [1, 2, 3, 4]\<rparr> None \<and>
   ssimFast \<lparr>width = 2, height = 2, data = [1, 2, 3, 4]\<rparr>
     \<lparr>width = 2, height = 2, data = [4, 3, 2, 1]\<rparr> None =
   ssimFast \<lparr>width = 2, height = 2, data = [4, 3, 2, 1]\<rparr>
     \<lparr>width = 2, height = 2, data = [1, 2, 3, 4]\<rparr> None"
  using engines_symmetric [of "\<lparr>width = 2, height = 2, data = [1, 2, 3, 4]\<rparr>"
      "\<lparr>width = 2, height = 2, data = [4, 3, 2, 1]\<rparr>" Map.empty None]
  by simp

section \<open>Counting loops, arrays and the scan\<close>

lemma for_range_nat: "for_range (int a) (int b) = map int [a..<b]"
  by (rule nth_equalityI) (auto simp: for_range_def)

lemma for_range_empty: "b \<le> a \<Longrightarrow> for_range a b = []"
  by (simp add: for_range_def)

lemma length_for_range: "length (for_range a b) = nat (b - a)"
  by (simp add: for_range_def)

lemma set_for_range: "set (for_range a b) = {a..<b}"
proof -
  have "x \<in> (\<lambda>k. a + int k) ` {0..<nat (b - a)} \<longleftrightarrow> a \<le> x \<and> x < b" for x
  proof
    assume "x \<in> (\<lambda>k. a + int k) ` {0..<nat (b - a)}"
    then show "a \<le> x \<and> x < b" by auto
  next
    assume "a \<le> x \<and> x < b"
    then have "x = a + int (nat (x - a))" "nat (x - a) \<in> {0..<nat (b - a)}" by auto
    then show "x \<in> (\<lambda>k. a + int k) ` {0..<nat (b - a)}" by blast
  qed
  then show ?thesis by (auto simp: for_range_def)
qed

lemma for_range_snoc: "a \<le> b \<Longrightarrow> for_range a (b + 1) = for_range a b @ [b]"
proof -
  assume "a \<le> b"
  then have "nat (b + 1 - a) = Suc (nat (b - a))" by simp
  with \<open>a \<le> b\<close> show ?thesis by (simp add: for_range_def)
qed

lemma for_range_shift: "for_range a b = map (\<lambda>k. a + int k) [0..<nat (b - a)]"
  by (simp add: for_range_def)

lemma rd_int: "rd a (int n) = (if n < length a then a ! n else NaN)"
  by (simp add: rd_def)

lemma wr_int: "wr a (int n) v = a[n := v]"
  by (simp add: wr_def list_update_beyond)

lemma rdd_int: "rdd a (int n) = (if n < length a then Fin (a ! n) else NaN)"
  by (simp add: rdd_def)

lemma length_wr: "length (wr a i v) = length a"
  by (simp add: wr_def)

lemma rd_wr: "rd (wr a i v) j = (if i = j \<and> 0 \<le> i \<and> i < int (length a) then v else rd a j)"
  by (auto simp: rd_def wr_def nth_list_update)

lemma fold_push:
  "fold push vs (m, 0) = (overwrite m vs, int (length vs))"
proof (induction vs rule: rev_induct)
  case Nil
  show ?case by (simp add: overwrite_def map_nth)
next
  case (snoc v vs)
  have "(overwrite m vs)[length vs := v] = overwrite m (vs @ [v])"
    by (rule nth_equalityI) (auto simp: overwrite_def nth_list_update nth_append)
  with snoc show ?case
    by (simp add: push_def wr_int add.commute)
qed

lemma fold_concat_rows: "fold f (concat xss) = fold (fold f) xss"
  by (induction xss) simp_all

lemma scan_cells:
  "scan f startX endX startY endY m =
   (overwrite m (cells f startX endX startY endY), int (length (cells f startX endX startY endY)))"
proof -
  have inner: "fold (\<lambda>x (m, idx). (wr m idx (f x y), idx + 1)) xs = fold push (map (\<lambda>x. f x y) xs)" for y xs
    by (simp add: fold_map push_def comp_def)
  have "scan f startX endX startY endY m =
        fold push (cells f startX endX startY endY) (m, 0)"
    unfolding scan_def cells_def inner
    by (simp add: fold_concat_rows fold_map comp_def)
  then show ?thesis by (simp add: fold_push)
qed

lemma length_overwrite: "length (overwrite m vs) = length m"
  by (simp add: overwrite_def)

lemma overwrite_nth: "j < length m \<Longrightarrow> overwrite m vs ! j = (if j < length vs then vs ! j else m ! j)"
  by (simp add: overwrite_def)

lemma overwrite_Nil: "overwrite m [] = m"
  by (simp add: overwrite_def map_nth)

lemma overwrite_exact: "length vs = length m \<Longrightarrow> overwrite m vs = vs"
  by (rule nth_equalityI) (simp_all add: overwrite_def)


lemma concat_uniform_length:
  "\<forall>r \<in> set rows. length r = n \<Longrightarrow> length (concat rows) = length rows * n"
  by (induction rows) simp_all

lemma length_cells:
  "length (cells f startX endX startY endY) = nat (endY - startY) * nat (endX - startX)"
  unfolding cells_def
  by (subst concat_uniform_length [where n = "nat (endX - startX)"])
     (auto simp: length_for_range)



section \<open>The mean of the map\<close>

lemma sum_loop_const:
  assumes "\<forall>j<length m. m ! j = Fin c" "a \<le> length m"
  shows "fold (\<lambda>i s. s + rd m i) (for_range (int a) (int (length m))) (Fin s0) =
         Fin (s0 + real (length m - a) * c)"
proof -
  have "b \<le> length m \<Longrightarrow> a \<le> b \<Longrightarrow>
        fold (\<lambda>i s. s + rd m i) (map int [a..<b]) (Fin s0) = Fin (s0 + real (b - a) * c)" for b
  proof (induction b)
    case 0
    then show ?case by simp
  next
    case (Suc b)
    show ?case
    proof (cases "a = Suc b")
      case True
      then show ?thesis by simp
    next
      case False
      with Suc.prems have ab: "a \<le> b" "b < length m" by auto
      with Suc.IH have "fold (\<lambda>i s. s + rd m i) (map int [a..<b]) (Fin s0) = Fin (s0 + real (b - a) * c)"
        by simp
      with ab assms(1) show ?thesis
        by (simp add: rd_int Suc_diff_le algebra_simps)
    qed
  qed
  from this [of "length m"] assms(2) show ?thesis
    by (simp add: for_range_nat)
qed

lemma sum_unrolled_const:
  shows "\<forall>j<length m. m ! j = Fin c \<Longrightarrow> 0 \<le> i \<Longrightarrow> i \<le> int (length m) \<Longrightarrow>
         (case sum_unrolled m i (Fin s) of
            (i', t) \<Rightarrow> fold (\<lambda>i s. s + rd m i) (for_range i' (int (length m))) t) =
         Fin (s + real_of_int (int (length m) - i) * c)"
proof (induction m i "Fin s" arbitrary: s rule: sum_unrolled.induct)
  case (1 ssimMap i)
  show ?case
  proof (cases "i < int (length ssimMap) - 3")
    case True
    have rds: "rd ssimMap i = Fin c" "rd ssimMap (i + 1) = Fin c" "rd ssimMap (i + 2) = Fin c"
      "rd ssimMap (i + 3) = Fin c"
      using True "1.prems" by (auto simp: rd_def)
    have step: "Fin s + (rd ssimMap i + rd ssimMap (i + 1) + rd ssimMap (i + 2) + rd ssimMap (i + 3)) =
          Fin (s + 4 * c)"
      by (simp add: rds)
    have "(case sum_unrolled ssimMap (i + 4) (Fin (s + 4 * c)) of
            (i', t) \<Rightarrow> fold (\<lambda>i s. s + rd ssimMap i) (for_range i' (int (length ssimMap))) t) =
          Fin (s + 4 * c + real_of_int (int (length ssimMap) - (i + 4)) * c)"
      using True "1.prems" by (intro "1.hyps" [OF True step]) auto
    moreover have "sum_unrolled ssimMap i (Fin s) = sum_unrolled ssimMap (i + 4) (Fin (s + 4 * c))"
      using True by (subst sum_unrolled.simps) (simp only: step if_True)
    ultimately show ?thesis
      by (simp add: algebra_simps)
  next
    case False
    obtain a where a: "i = int a" "a \<le> length ssimMap"
      using "1.prems" by (metis nat_le_iff nonneg_int_cases of_nat_le_iff)
    show ?thesis
      using False sum_loop_const [OF "1.prems"(1) a(2), of s]
      by (subst sum_unrolled.simps) (simp add: a)
  qed
qed

lemma ref_mean_const:
  "\<forall>j<length m. m ! j = Fin c \<Longrightarrow> ref_mean m = Fin (real (length m) * c) / num (int (length m))"
  using sum_loop_const [of m c 0 0] by (simp add: ref_mean_def)

lemma fast_mean_const:
  "\<forall>j<length m. m ! j = Fin c \<Longrightarrow> fast_mean m = Fin (real (length m) * c) / num (int (length m))"
  using sum_unrolled_const [of m c 0 0] by (simp add: fast_mean_def)

section \<open>The result of both engines\<close>

lemma calculateSSIM_result:
  assumes "width img1 = width img2" "height img1 = height img2"
  shows "calculateSSIM kernelCache img1 img2 options =
    (let windowSize = option_or options opt_windowSize DEFAULT_WINDOW_SIZE;
         kc = getOrCreateKernel kernelCache windowSize DEFAULT_SIGMA;
         halfSize = int windowSize div 2;
         w = int (width img1);
         h = int (height img1);
         n = (w - 2 * halfSize) * (h - 2 * halfSize);
         M = overwrite (replicate (nat n) (Fin 0))
               (cells (\<lambda>x y. calculateLocalSSIM (data img1) (data img2) w h x y (int windowSize) (fst kc)
                          (Fin ((option_or options opt_k1 DEFAULT_K1 * option_or options opt_L DEFAULT_L) ^ 2))
                          (Fin ((option_or options opt_k2 DEFAULT_K2 * option_or options opt_L DEFAULT_L) ^ 2)))
                  halfSize (w - halfSize) halfSize (h - halfSize))
     in if n < 0 then (Inl RangeError, snd kc)
        else (Inr \<lparr>mssim = ref_mean M, ssim_map = M\<rparr>, snd kc))"
  using assms
  by (simp add: calculateSSIM_def Let_def new_FloatArray_def scan_cells ref_mean_def length_overwrite
        split: prod.splits)

lemma calculateSSIMFast_result:
  assumes "width img1 = width img2" "height img1 = height img2"
  shows "calculateSSIMFast img1 img2 options =
    (let windowSize = option_or options opt_windowSize FAST_DEFAULT_WINDOW_SIZE;
         halfSize = shr1 windowSize;
         w = int (width img1);
         h = int (height img1);
         n = (w - halfSize - halfSize) * (h - halfSize - halfSize);
         M = overwrite (replicate (nat n) (Fin 0))
               (cells (fast_cell (new_IntegralImage (data img1) (width img1) (height img1))
                         (new_IntegralImage (data img2) (width img1) (height img1))
                         (new_ProductIntegralImage (data img1) (data img2) (width img1) (height img1))
                         w h halfSize
                         (Fin ((option_or options opt_k1 DEFAULT_K1 * option_or options opt_L DEFAULT_L) *
                               (option_or options opt_k1 DEFAULT_K1 * option_or options opt_L DEFAULT_L)))
                         (Fin ((option_or options opt_k2 DEFAULT_K2 * option_or options opt_L DEFAULT_L) *
                               (option_or options opt_k2 DEFAULT_K2 * option_or options opt_L DEFAULT_L))))
                  halfSize (w - halfSize) halfSize (h - halfSize))
     in if n < 0 then Inl RangeError
        else Inr \<lparr>mssim = fast_mean M, ssim_map = M\<rparr>)"
  using assms
  by (simp add: calculateSSIMFast_def Let_def new_FloatArray_def scan_cells fast_mean_def length_overwrite
        split: prod.splits)

lemma shr1_small: "n < 2 ^ 31 \<Longrightarrow> shr1 n = int (n div 2)"
proof -
  assume n: "n < 2 ^ 31"
  have "sint (word_of_nat n :: 32 word) = int n"
    using n by (simp add: signed_of_nat signed_take_bit_int_eq_self)
  then show ?thesis
    by (simp add: shr1_def sint_signed_drop_bit_eq drop_bit_eq_div zdiv_int)
qed

lemma shr1_8: "shr1 8 = 4"
  by (simp add: shr1_small)

lemma shr1_big: "shr1 (2 ^ 32) = 0"
  by (simp add: shr1_def)

lemma shr1_big2: "shr1 4294967296 = 0"
  by (simp add: shr1_def)

lemma cells_empty: "endX \<le> startX \<or> endY \<le> startY \<Longrightarrow> cells f startX endX startY endY = []"
  by (auto simp: cells_def for_range_empty)

lemma ref_mean_zeros: "0 < n \<Longrightarrow> ref_mean (replicate n (Fin 0)) = Fin 0"
  using ref_mean_const [of "replicate n (Fin 0)" 0] by (simp add: num_def)

lemma fast_mean_zeros: "0 < n \<Longrightarrow> fast_mean (replicate n (Fin 0)) = Fin 0"
  using fast_mean_const [of "replicate n (Fin 0)" 0] by (simp add: num_def)

lemma ref_mean_Nil: "ref_mean [] = NaN"
  by (simp add: ref_mean_def num_def for_range_empty)

lemma fast_mean_Nil: "fast_mean [] = NaN"
  by (simp add: fast_mean_def num_def for_range_empty sum_unrolled.simps)

section \<open>The size of the map\<close>

text \<open>
  C6: the claim is that no call on images of equal dimensions raises an error. The array of
  the map is allocated with the length \<open>validWidth * validHeight\<close>, which is negative when
  exactly one dimension is smaller than twice \<open>halfSize\<close>: on a 2 by 20 image with the
  default options both engines raise a RangeError.
\<close>

theorem narrow_image_range_error:
  "fst (calculateSSIM Map.empty \<lparr>width = 2, height = 20, data = replicate 40 128\<rparr>
         \<lparr>width = 2, height = 20, data = replicate 40 128\<rparr> None) = Inl RangeError \<and>
   calculateSSIMFast \<lparr>width = 2, height = 20, data = replicate 40 128\<rparr>
     \<lparr>width = 2, height = 20, data = replicate 40 128\<rparr> None = Inl RangeError"
  by (simp add: calculateSSIM_result calculateSSIMFast_result Let_def option_or_def
        DEFAULT_WINDOW_SIZE_def FAST_DEFAULT_WINDOW_SIZE_def shr1_8)

theorem narrow_image_range_error_witness:
  "fst (ssim Map.empty \<lparr>width = 2, height = 20, data = replicate 40 128\<rparr>
         \<lparr>width = 2, height = 20, data = replicate 40 128\<rparr> None) = Inl RangeError \<and>
   ssimFast \<lparr>width = 2, height = 20, data = replicate 40 128\<rparr>
     \<lparr>width = 2, height = 20, data = replicate 40 128\<rparr> None = Inl RangeError"
  using narrow_image_range_error
  by (cases "calculateSSIM Map.empty \<lparr>width = 2, height = 20, data = replicate 40 128\<rparr>
         \<lparr>width = 2, height = 20, data = replicate 40 128\<rparr> None")
     (simp add: ssim_def ssimFast_def)

text \<open>
  C5: the claim is that images smaller than the window in both dimensions give an empty map
  and a NaN mean. When both \<open>validWidth\<close> and \<open>validHeight\<close> are negative their product is
  positive: on a 2 by 2 image with the default options the scan visits no pixel, yet the
  reference engine returns a map of 64 zeros and the fast engine one of 36 zeros, both
  with the mean 0.
\<close>

theorem tiny_image_zero_map:
  "fst (calculateSSIM Map.empty \<lparr>width = 2, height = 2, data = [128, 128, 128, 128]\<rparr>
         \<lparr>width = 2, height = 2, data = [128, 128, 128, 128]\<rparr> None) =
     Inr \<lparr>mssim = Fin 0, ssim_map = replicate 64 (Fin 0)\<rparr> \<and>
   calculateSSIMFast \<lparr>width = 2, height = 2, data = [128, 128, 128, 128]\<rparr>
     \<lparr>width = 2, height = 2, data = [128, 128, 128, 128]\<rparr> None =
     Inr \<lparr>mssim = Fin 0, ssim_map = replicate 36 (Fin 0)\<rparr>"
  by (simp add: calculateSSIM_result calculateSSIMFast_result Let_def option_or_def
        DEFAULT_WINDOW_SIZE_def FAST_DEFAULT_WINDOW_SIZE_def shr1_8 cells_empty overwrite_Nil
        ref_mean_zeros fast_mean_zeros)

theorem tiny_image_zero_map_witness:
  "fst (ssim Map.empty \<lparr>width = 2, height = 2, data = [128, 128, 128, 128]\<rparr>
         \<lparr>width = 2, height = 2, data = [128, 128, 128, 128]\<rparr> None) = Inr (Fin 0) \<and>
   ssimFast \<lparr>width = 2, height = 2, data = [128, 128, 128, 128]\<rparr>
     \<lparr>width = 2, height = 2, data = [128, 128, 128, 128]\<rparr> None = Inr (Fin 0)"
  using tiny_image_zero_map
  by (cases "calculateSSIM Map.empty \<lparr>width = 2, height = 2, data = [128, 128, 128, 128]\<rparr>
         \<lparr>width = 2, height = 2, data = [128, 128, 128, 128]\<rparr> None")
     (simp add: ssim_def ssimFast_def)

text \<open>
  C4, as stated, fails: on a 3 by 3 image with the default window size 11 the reference
  engine returns a map of length 49, where \<open>max(0, 3 - 10) * max(0, 3 - 10) = 0\<close>. And the
  \<open>halfSize\<close> of the fast engine is \<open>windowSize >> 1\<close>, not \<open>floor(windowSize / 2)\<close>: for the
  window size \<open>2\<^sup>3\<^sup>2\<close> it is 0, and on a 1 by 1 image the map has length 1, where
  \<open>max(0, 1 - 2\<^sup>3\<^sup>2) * max(0, 1 - 2\<^sup>3\<^sup>2) = 0\<close>.
\<close>

theorem map_length_counterexample:
  "fst (calculateSSIM Map.empty \<lparr>width = 3, height = 3, data = replicate 9 128\<rparr>
         \<lparr>width = 3, height = 3, data = replicate 9 128\<rparr> None) =
     Inr \<lparr>mssim = Fin 0, ssim_map = replicate 49 (Fin 0)\<rparr> \<and>
   int (length (replicate 49 (Fin 0 :: jsnum))) \<noteq>
     max 0 (int 3 - 2 * (int DEFAULT_WINDOW_SIZE div 2)) * max 0 (int 3 - 2 * (int DEFAULT_WINDOW_SIZE div 2)) \<and>
   calculateSSIMFast \<lparr>width = 1, height = 1, data = [128]\<rparr>
     \<lparr>width = 1, height = 1, data = [128]\<rparr>
     (Some \<lparr>opt_k1 = None, opt_k2 = None, opt_windowSize = Some 4294967296, opt_L = None\<rparr>) =
     Inr \<lparr>mssim = NaN, ssim_map = [NaN]\<rparr> \<and>
   int (length [NaN]) \<noteq>
     max 0 (int 1 - 2 * (int 4294967296 div 2)) * max 0 (int 1 - 2 * (int 4294967296 div 2))"
proof -
  have "fst (calculateSSIM Map.empty \<lparr>width = 3, height = 3, data = replicate 9 128\<rparr>
         \<lparr>width = 3, height = 3, data = replicate 9 128\<rparr> None) =
     Inr \<lparr>mssim = Fin 0, ssim_map = replicate 49 (Fin 0)\<rparr> \<and>
   int (length (replicate 49 (Fin 0 :: jsnum))) \<noteq>
     max 0 (int 3 - 2 * (int DEFAULT_WINDOW_SIZE div 2)) * max 0 (int 3 - 2 * (int DEFAULT_WINDOW_SIZE div 2))"
    by (simp add: calculateSSIM_result Let_def option_or_def
          DEFAULT_WINDOW_SIZE_def cells_empty overwrite_Nil ref_mean_zeros)
  moreover have "calculateSSIMFast \<lparr>width = 1, height = 1, data = [128]\<rparr>
     \<lparr>width = 1, height = 1, data = [128]\<rparr>
     (Some \<lparr>opt_k1 = None, opt_k2 = None, opt_windowSize = Some 4294967296, opt_L = None\<rparr>) =
     Inr \<lparr>mssim = NaN, ssim_map = [NaN]\<rparr> \<and>
   int (length [NaN]) \<noteq>
     max 0 (int 1 - 2 * (int 4294967296 div 2)) * max 0 (int 1 - 2 * (int 4294967296 div 2))"
    by (simp add: calculateSSIMFast_def scan_def fast_cell_def getMean_def getMeanSq_def p_getMean_def
          corner_mean_def new_IntegralImage_def new_ProductIntegralImage_def buildBoth_def
          buildProduct_def buildBoth_row_def buildBoth_cell_def buildProduct_row_def
          buildProduct_cell_def new_FloatArray_def for_range_def wr_def rd_def rdd_def num_def
          shr1_big2 Let_def option_or_def sum_unrolled.simps minus_jsnum_def)
  ultimately show ?thesis
    by (simp only: simp_thms)
qed

lemma valid_region_map:
  assumes "0 \<le> w - hs - hs" "0 \<le> h - hs - hs"
  shows "overwrite (replicate (nat ((w - hs - hs) * (h - hs - hs))) (Fin 0))
           (cells f hs (w - hs) hs (h - hs)) = cells f hs (w - hs) hs (h - hs)"
  using assms
  by (intro overwrite_exact) (simp add: length_cells nat_mult_distrib mult.commute)

lemma ref_map_length:
  assumes "width img1 = width img2" "height img1 = height img2"
    and "2 * (windowSize div 2) \<le> width img1" "2 * (windowSize div 2) \<le> height img1"
    and "option_or options opt_windowSize DEFAULT_WINDOW_SIZE = windowSize"
  shows "\<exists>r. fst (calculateSSIM kernelCache img1 img2 options) = Inr r \<and>
             length (ssim_map r) = (width img1 - 2 * (windowSize div 2)) * (height img1 - 2 * (windowSize div 2))"
proof -
  define halfSize where "halfSize = int windowSize div 2"
  have hs: "halfSize = int (windowSize div 2)"
    by (simp add: halfSize_def zdiv_int)
  have vw: "0 \<le> int (width img1) - 2 * halfSize" and vh: "0 \<le> int (height img1) - 2 * halfSize"
    using assms(3,4) unfolding hs by linarith+
  have n: "\<not> (int (width img1) - 2 * halfSize) * (int (height img1) - 2 * halfSize) < 0"
    using vw vh by (simp add: not_less)
  have len: "nat ((int (width img1) - 2 * halfSize) * (int (height img1) - 2 * halfSize)) =
             (width img1 - 2 * (windowSize div 2)) * (height img1 - 2 * (windowSize div 2))"
    using vw vh unfolding hs by (simp add: nat_mult_distrib nat_diff_distrib')
  show ?thesis
    using n len
    by (simp add: calculateSSIM_result [OF assms(1,2)] assms(5) Let_def length_overwrite
          flip: halfSize_def)
qed

lemma fast_map_length:
  assumes "width img1 = width img2" "height img1 = height img2"
    and "2 * (windowSize div 2) \<le> width img1" "2 * (windowSize div 2) \<le> height img1"
    and "option_or options opt_windowSize FAST_DEFAULT_WINDOW_SIZE = windowSize"
    and "windowSize < 2 ^ 31"
  shows "\<exists>r. calculateSSIMFast img1 img2 options = Inr r \<and>
             length (ssim_map r) = (width img1 - 2 * (windowSize div 2)) * (height img1 - 2 * (windowSize div 2))"
proof -
  define halfSize where "halfSize = shr1 windowSize"
  have hs: "halfSize = int (windowSize div 2)"
    unfolding halfSize_def by (rule shr1_small [OF assms(6)])
  have vw: "0 \<le> int (width img1) - halfSize - halfSize" and vh: "0 \<le> int (height img1) - halfSize - halfSize"
    using assms(3,4) unfolding hs by linarith+
  have n: "\<not> (int (width img1) - halfSize - halfSize) * (int (height img1) - halfSize - halfSize) < 0"
    using vw vh by (simp add: not_less)
  have len: "nat ((int (width img1) - halfSize - halfSize) * (int (height img1) - halfSize - halfSize)) =
             (width img1 - 2 * (windowSize div 2)) * (height img1 - 2 * (windowSize div 2))"
    using vw vh unfolding hs by (simp add: nat_mult_distrib nat_diff_distrib')
  show ?thesis
    using n len
    by (simp add: calculateSSIMFast_result [OF assms(1,2)] assms(5) Let_def length_overwrite
          flip: halfSize_def)
qed

text \<open>
  C4, amended: for two images of equal dimensions and a window size with
  \<open>2 * floor(windowSize / 2)\<close> at most the width and at most the height (in particular for
  every window size smaller than both dimensions), the call returns a result whose map has
  length \<open>(width - 2 * halfSize) * (height - 2 * halfSize)\<close> with
  \<open>halfSize = floor(windowSize / 2)\<close>; for the fast engine, whose \<open>halfSize\<close> is
  \<open>windowSize >> 1\<close> on 32-bit integers, for window sizes below \<open>2\<^sup>3\<^sup>1\<close>. The window size is
  the one of the options, or the default of the engine.
\<close>

theorem ssim_map_length:
  assumes "width img1 = width img2" and "height img1 = height img2"
    and "option_or options opt_windowSize DEFAULT_WINDOW_SIZE = windowSize"
    and "option_or options opt_windowSize FAST_DEFAULT_WINDOW_SIZE = fastWindowSize"
  shows "(2 * (windowSize div 2) \<le> width img1 \<and> 2 * (windowSize div 2) \<le> height img1 \<longrightarrow>
          (\<exists>r. fst (calculateSSIM kernelCache img1 img2 options) = Inr r \<and>
               length (ssim_map r) =
                 (width img1 - 2 * (windowSize div 2)) * (height img1 - 2 * (windowSize div 2)))) \<and>
         (fastWindowSize < 2 ^ 31 \<and>
          2 * (fastWindowSize div 2) \<le> width img1 \<and> 2 * (fastWindowSize div 2) \<le> height img1 \<longrightarrow>
          (\<exists>r. calculateSSIMFast img1 img2 options = Inr r \<and>
               length (ssim_map r) =
                 (width img1 - 2 * (fastWindowSize div 2)) * (height img1 - 2 * (fastWindowSize div 2))))"
  using ref_map_length [OF assms(1,2) _ _ assms(3)] fast_map_length [OF assms(1,2) _ _ assms(4)]
  by blast

theorem ssim_map_length_witness:
  "(\<exists>r. fst (calculateSSIM Map.empty \<lparr>width = 32, height = 32, data = replicate 1024 128\<rparr>
              \<lparr>width = 32, height = 32, data = replicate 1024 128\<rparr>
              (Some \<lparr>opt_k1 = None, opt_k2 = None, opt_windowSize = Some 11, opt_L = None\<rparr>)) = Inr r \<and>
        length (ssim_map r) = 484) \<and>
   (\<exists>r. calculateSSIMFast \<lparr>width = 32, height = 32, data = replicate 1024 128\<rparr>
              \<lparr>width = 32, height = 32, data = replicate 1024 128\<rparr>
              (Some \<lparr>opt_k1 = None, opt_k2 = None, opt_windowSize = Some 11, opt_L = None\<rparr>) = Inr r \<and>
        length (ssim_map r) = 484)"
  using ssim_map_length [of "\<lparr>width = 32, height = 32, data = replicate 1024 128\<rparr>"
      "\<lparr>width = 32, height = 32, data = replicate 1024 128\<rparr>"
      "Some \<lparr>opt_k1 = None, opt_k2 = None, opt_windowSize = Some 11, opt_L = None\<rparr>" 11 11 Map.empty]
  by (simp add: option_or_def)

section \<open>The entries of the fast engine\<close>





section \<open>Summed-area tables\<close>

lemma length_filled: "length (filled P s N n) = N"
  by (simp add: filled_def)

lemma filled_nth: "i < N \<Longrightarrow> filled P s N n ! i = (if i < n then Fin (P (i mod s) (i div s)) else Fin 0)"
  by (simp add: filled_def)

lemma filled_step: "(filled P s N n)[n := Fin (P (n mod s) (n div s))] = filled P s N (Suc n)"
  by (rule nth_equalityI) (auto simp: filled_def nth_list_update less_Suc_eq)

lemma filled_zero: "\<forall>i<n. P (i mod s) (i div s) = 0 \<Longrightarrow> filled P s N n = replicate N (Fin 0)"
  by (rule nth_equalityI) (auto simp: filled_def)

lemma filled_skip: "P (n mod s) (n div s) = 0 \<Longrightarrow> filled P s N (Suc n) = filled P s N n"
  by (rule nth_equalityI) (auto simp: filled_def less_Suc_eq)

lemma prefix_sum_0 [simp]: "prefix_sum g 0 y = 0" "prefix_sum g x 0 = 0"
  by (simp_all add: prefix_sum_def)

lemma prefix_sum_Suc: "prefix_sum g x (Suc y) = prefix_sum g x y + (\<Sum>i<x. g i y)"
  by (simp add: prefix_sum_def)

lemma for_range_1: "for_range 1 (int n + 1) = map (\<lambda>k. int (Suc k)) [0..<n]"
  by (simp add: for_range_def)

lemma jsub_Fin [simp]: "Fin a - Fin b = Fin (a - b)"
  by (simp add: minus_jsnum_def)

lemma idx_mod: "r < s \<Longrightarrow> (q * s + r) mod s = r" for r :: nat
  by simp

lemma idx_div: "r < s \<Longrightarrow> (q * s + r) div s = q" for r :: nat
  by simp

lemma buildBoth_cell_step:
  assumes "k < w" "y < h" "s = Suc w" "N = s * Suc h" "length dat = w * h"
    and "n = Suc y * s + Suc k"
  shows "buildBoth_cell dat (int (Suc y) * int s) ((int (Suc y) - 1) * int s) (int (Suc k))
           (filled (prefix_sum (pixel dat w)) s N n,
            filled (prefix_sum (\<lambda>i j. pixel dat w i j * pixel dat w i j)) s N n,
            int (y * w + k),
            Fin (\<Sum>i<k. pixel dat w i y), Fin (\<Sum>i<k. pixel dat w i y * pixel dat w i y)) =
          (filled (prefix_sum (pixel dat w)) s N (Suc n),
            filled (prefix_sum (\<lambda>i j. pixel dat w i j * pixel dat w i j)) s N (Suc n),
            int (y * w + Suc k),
            Fin (\<Sum>i<Suc k. pixel dat w i y), Fin (\<Sum>i<Suc k. pixel dat w i y * pixel dat w i y))"
proof -
  have idx: "int (Suc y) * int s + int (Suc k) = int n"
    and prev: "(int (Suc y) - 1) * int s + int (Suc k) = int (y * s + Suc k)"
    by (simp_all add: assms(6) algebra_simps)
  have "y * w + k < w * h"
  proof -
    have "y * w + k < y * w + w" using assms(1) by simp
    also have "\<dots> = Suc y * w" by simp
    also have "\<dots> \<le> h * w" using assms(2) by (intro mult_le_mono1) simp
    finally show ?thesis by (simp add: mult.commute)
  qed
  then have dat: "rdd dat (int (y * w + k)) = Fin (pixel dat w k y)"
    unfolding rdd_int pixel_def assms(5) by simp
  have "Suc y * s \<le> h * s"
    using assms(2) by (intro mult_le_mono1) simp
  moreover have sk: "Suc k < s"
    using assms(1,3) by simp
  ultimately have "n < h * s + s"
    unfolding assms(6) by linarith
  then have "n < N"
    by (simp add: assms(4) mult.commute)
  moreover have "y * s + Suc k < n"
    unfolding assms(6) using assms(3) by simp
  ultimately have nN: "n < N" "y * s + Suc k < N" "y * s + Suc k < n"
    by simp_all
  have md: "n mod s = Suc k" "n div s = Suc y" "(y * s + Suc k) mod s = Suc k" "(y * s + Suc k) div s = y"
    unfolding assms(6) by (simp_all only: idx_mod [OF sk] idx_div [OF sk])
  have rdI: "filled P s N n ! (y * s + Suc k) = Fin (P (Suc k) y)" for P
    using nN by (simp only: filled_nth md if_True)
  have step: "(filled (prefix_sum g) s N n)[n := Fin ((\<Sum>i<k. g i y) + g k y + prefix_sum g (Suc k) y)] =
              filled (prefix_sum g) s N (Suc n)" for g
    unfolding filled_step [symmetric] md prefix_sum_Suc by (simp add: add.commute)
  show ?thesis
    unfolding buildBoth_cell_def Let_def prod.case idx prev dat wr_int rd_int length_filled
    by (simp only: nN if_True rdI plus_jsnum.simps times_jsnum.simps step)
       (simp add: step step [of "\<lambda>i j. pixel dat w i j * pixel dat w i j"])
qed

lemma filled_row_start:
  "0 < s \<Longrightarrow> filled (prefix_sum g) s N (Suc (y * s)) = filled (prefix_sum g) s N (y * s)"
  by (rule filled_skip) simp

lemma buildBoth_row_step:
  assumes "y < h" "s = Suc w" "N = s * Suc h" "length dat = w * h"
  shows "buildBoth_row dat (int s) (int w) (int (Suc y))
           (filled (prefix_sum (pixel dat w)) s N (Suc y * s),
            filled (prefix_sum (\<lambda>i j. pixel dat w i j * pixel dat w i j)) s N (Suc y * s),
            int (y * w)) =
          (filled (prefix_sum (pixel dat w)) s N (Suc (Suc y) * s),
            filled (prefix_sum (\<lambda>i j. pixel dat w i j * pixel dat w i j)) s N (Suc (Suc y) * s),
            int (Suc y * w))"
proof -
  let ?P = "prefix_sum (pixel dat w)" and ?Q = "prefix_sum (\<lambda>i j. pixel dat w i j * pixel dat w i j)"
  have inner: "k \<le> w \<Longrightarrow>
        fold (buildBoth_cell dat (int (Suc y) * int s) ((int (Suc y) - 1) * int s))
          (map (\<lambda>k. int (Suc k)) [0..<k])
          (filled ?P s N (Suc (Suc y * s)), filled ?Q s N (Suc (Suc y * s)), int (y * w), Fin 0, Fin 0) =
        (filled ?P s N (Suc y * s + Suc k), filled ?Q s N (Suc y * s + Suc k), int (y * w + k),
         Fin (\<Sum>i<k. pixel dat w i y), Fin (\<Sum>i<k. pixel dat w i y * pixel dat w i y))" for k
  proof (induction k)
    case 0
    show ?case by simp
  next
    case (Suc k)
    then have k: "k < w" by simp
    have "buildBoth_cell dat (int (Suc y) * int s) ((int (Suc y) - 1) * int s) (int (Suc k))
           (filled ?P s N (Suc y * s + Suc k), filled ?Q s N (Suc y * s + Suc k), int (y * w + k),
            Fin (\<Sum>i<k. pixel dat w i y), Fin (\<Sum>i<k. pixel dat w i y * pixel dat w i y)) =
          (filled ?P s N (Suc (Suc y * s + Suc k)), filled ?Q s N (Suc (Suc y * s + Suc k)),
            int (y * w + Suc k),
            Fin (\<Sum>i<Suc k. pixel dat w i y), Fin (\<Sum>i<Suc k. pixel dat w i y * pixel dat w i y))"
      by (rule buildBoth_cell_step [OF k assms refl])
    with Suc show ?case
      by (simp del: mult_Suc of_nat_Suc of_nat_add of_nat_mult sum.lessThan_Suc)
  qed
  have s0: "0 < s" using assms(2) by simp
  have fin: "Suc y * s + Suc w = Suc (Suc y) * s"
    by (simp add: assms(2))
  show ?thesis
    unfolding buildBoth_row_def Let_def prod.case for_range_1
      filled_row_start [OF s0, symmetric] inner [OF order_refl] fin prod.case
    by (simp add: add.commute)
qed

lemma buildBoth_table:
  assumes "length dat = w * h"
  shows "integral (new_IntegralImage dat w h) =
           filled (prefix_sum (pixel dat w)) (Suc w) (Suc w * Suc h) (Suc w * Suc h)"
    and "integralSq (new_IntegralImage dat w h) =
           filled (prefix_sum (\<lambda>i j. pixel dat w i j * pixel dat w i j)) (Suc w) (Suc w * Suc h) (Suc w * Suc h)"
    and "ii_stride (new_IntegralImage dat w h) = Suc w"
proof -
  let ?P = "prefix_sum (pixel dat w)" and ?Q = "prefix_sum (\<lambda>i j. pixel dat w i j * pixel dat w i j)"
  let ?s = "Suc w" and ?N = "Suc w * Suc h"
  have zero: "replicate ?N (Fin 0) = filled (prefix_sum g) ?s ?N (Suc 0 * ?s)" for g
    by (rule filled_zero [symmetric]) simp
  have rows: "m \<le> h \<Longrightarrow>
      fold (buildBoth_row dat (int ?s) (int w)) (map (\<lambda>y. int (Suc y)) [0..<m])
        (replicate ?N (Fin 0), replicate ?N (Fin 0), 0) =
      (filled ?P ?s ?N (Suc m * ?s), filled ?Q ?s ?N (Suc m * ?s), int (m * w))" for m
  proof (induction m)
    case 0
    show ?case
      using zero [of "pixel dat w"] zero [of "\<lambda>i j. pixel dat w i j * pixel dat w i j"]
      by simp
  next
    case (Suc m)
    then have m: "m < h" by simp
    show ?case
      using Suc buildBoth_row_step [OF m refl refl assms]
      by (simp del: mult_Suc of_nat_Suc of_nat_add of_nat_mult)
  qed
  have final: "Suc h * ?s = ?N"
    by (simp add: mult.commute)
  have all: "fold (buildBoth_row dat (int ?s) (int w)) (for_range 1 (int h + 1))
        (replicate ?N (Fin 0), replicate ?N (Fin 0), 0) =
      (filled ?P ?s ?N ?N, filled ?Q ?s ?N ?N, int (h * w))"
    unfolding for_range_1 rows [OF order_refl] final ..
  show "integral (new_IntegralImage dat w h) = filled ?P ?s ?N ?N"
    and "integralSq (new_IntegralImage dat w h) = filled ?Q ?s ?N ?N"
    and "ii_stride (new_IntegralImage dat w h) = Suc w"
    unfolding new_IntegralImage_def buildBoth_def Let_def
    by (simp_all only: IntegralImage.simps Suc_eq_plus1 [symmetric] all prod.case)
qed

lemma buildProduct_cell_step:
  assumes "k < w" "y < h" "s = Suc w" "N = s * Suc h" "length data1 = w * h" "length data2 = w * h"
    and "n = Suc y * s + Suc k"
  shows "buildProduct_cell data1 data2 (int (Suc y) * int s) ((int (Suc y) - 1) * int s) (int (Suc k))
           (filled (prefix_sum (\<lambda>i j. pixel data1 w i j * pixel data2 w i j)) s N n,
            int (y * w + k),
            Fin (\<Sum>i<k. pixel data1 w i y * pixel data2 w i y)) =
          (filled (prefix_sum (\<lambda>i j. pixel data1 w i j * pixel data2 w i j)) s N (Suc n),
            int (y * w + Suc k),
            Fin (\<Sum>i<Suc k. pixel data1 w i y * pixel data2 w i y))"
proof -
  have idx: "int (Suc y) * int s + int (Suc k) = int n"
    and prev: "(int (Suc y) - 1) * int s + int (Suc k) = int (y * s + Suc k)"
    by (simp_all add: assms(7) algebra_simps)
  have "y * w + k < w * h"
  proof -
    have "y * w + k < y * w + w" using assms(1) by simp
    also have "\<dots> = Suc y * w" by simp
    also have "\<dots> \<le> h * w" using assms(2) by (intro mult_le_mono1) simp
    finally show ?thesis by (simp add: mult.commute)
  qed
  then have dat: "rdd data1 (int (y * w + k)) = Fin (pixel data1 w k y)"
    "rdd data2 (int (y * w + k)) = Fin (pixel data2 w k y)"
    unfolding rdd_int pixel_def assms(5,6) by simp_all
  have "Suc y * s \<le> h * s"
    using assms(2) by (intro mult_le_mono1) simp
  moreover have sk: "Suc k < s"
    using assms(1,3) by simp
  ultimately have "n < h * s + s"
    unfolding assms(7) by linarith
  then have "n < N"
    by (simp add: assms(4) mult.commute)
  moreover have "y * s + Suc k < n"
    unfolding assms(7) using assms(3) by simp
  ultimately have nN: "n < N" "y * s + Suc k < N" "y * s + Suc k < n"
    by simp_all
  have md: "n mod s = Suc k" "n div s = Suc y" "(y * s + Suc k) mod s = Suc k" "(y * s + Suc k) div s = y"
    unfolding assms(7) by (simp_all only: idx_mod [OF sk] idx_div [OF sk])
  have rdI: "filled P s N n ! (y * s + Suc k) = Fin (P (Suc k) y)" for P
    using nN by (simp only: filled_nth md if_True)
  have step: "(filled (prefix_sum g) s N n)[n := Fin ((\<Sum>i<k. g i y) + g k y + prefix_sum g (Suc k) y)] =
              filled (prefix_sum g) s N (Suc n)" for g
    unfolding filled_step [symmetric] md prefix_sum_Suc by (simp add: add.commute)
  show ?thesis
    unfolding buildProduct_cell_def Let_def prod.case idx prev dat wr_int rd_int length_filled
    by (simp only: nN if_True rdI plus_jsnum.simps times_jsnum.simps step)
       (simp add: step [of "\<lambda>i j. pixel data1 w i j * pixel data2 w i j"])
qed

lemma buildProduct_row_step:
  assumes "y < h" "s = Suc w" "N = s * Suc h" "length data1 = w * h" "length data2 = w * h"
  shows "buildProduct_row data1 data2 (int s) (int w) (int (Suc y))
           (filled (prefix_sum (\<lambda>i j. pixel data1 w i j * pixel data2 w i j)) s N (Suc y * s),
            int (y * w)) =
          (filled (prefix_sum (\<lambda>i j. pixel data1 w i j * pixel data2 w i j)) s N (Suc (Suc y) * s),
            int (Suc y * w))"
proof -
  let ?P = "prefix_sum (\<lambda>i j. pixel data1 w i j * pixel data2 w i j)"
  have inner: "k \<le> w \<Longrightarrow>
        fold (buildProduct_cell data1 data2 (int (Suc y) * int s) ((int (Suc y) - 1) * int s))
          (map (\<lambda>k. int (Suc k)) [0..<k])
          (filled ?P s N (Suc (Suc y * s)), int (y * w), Fin 0) =
        (filled ?P s N (Suc y * s + Suc k), int (y * w + k),
         Fin (\<Sum>i<k. pixel data1 w i y * pixel data2 w i y))" for k
  proof (induction k)
    case 0
    show ?case by simp
  next
    case (Suc k)
    then have k: "k < w" by simp
    have "buildProduct_cell data1 data2 (int (Suc y) * int s) ((int (Suc y) - 1) * int s) (int (Suc k))
           (filled ?P s N (Suc y * s + Suc k), int (y * w + k),
            Fin (\<Sum>i<k. pixel data1 w i y * pixel data2 w i y)) =
          (filled ?P s N (Suc (Suc y * s + Suc k)), int (y * w + Suc k),
            Fin (\<Sum>i<Suc k. pixel data1 w i y * pixel data2 w i y))"
      by (rule buildProduct_cell_step [OF k assms refl])
    with Suc show ?case
      by (simp del: mult_Suc of_nat_Suc of_nat_add of_nat_mult sum.lessThan_Suc)
  qed
  have s0: "0 < s" using assms(2) by simp
  have fin: "Suc y * s + Suc w = Suc (Suc y) * s"
    by (simp add: assms(2))
  show ?thesis
    unfolding buildProduct_row_def Let_def prod.case for_range_1
      filled_row_start [OF s0, symmetric] inner [OF order_refl] fin prod.case
    by (simp add: add.commute)
qed

lemma buildProduct_table:
  assumes "length data1 = w * h" "length data2 = w * h"
  shows "p_integral (new_ProductIntegralImage data1 data2 w h) =
           filled (prefix_sum (\<lambda>i j. pixel data1 w i j * pixel data2 w i j)) (Suc w) (Suc w * Suc h) (Suc w * Suc h)"
    and "p_stride (new_ProductIntegralImage data1 data2 w h) = Suc w"
proof -
  let ?P = "prefix_sum (\<lambda>i j. pixel data1 w i j * pixel data2 w i j)"
  let ?s = "Suc w" and ?N = "Suc w * Suc h"
  have zero: "replicate ?N (Fin 0) = filled ?P ?s ?N (Suc 0 * ?s)"
    by (rule filled_zero [symmetric]) simp
  have rows: "m \<le> h \<Longrightarrow>
      fold (buildProduct_row data1 data2 (int ?s) (int w)) (map (\<lambda>y. int (Suc y)) [0..<m])
        (replicate ?N (Fin 0), 0) =
      (filled ?P ?s ?N (Suc m * ?s), int (m * w))" for m
  proof (induction m)
    case 0
    show ?case using zero by simp
  next
    case (Suc m)
    then have m: "m < h" by simp
    show ?case
      using Suc buildProduct_row_step [OF m refl refl assms]
      by (simp del: mult_Suc of_nat_Suc of_nat_add of_nat_mult)
  qed
  have final: "Suc h * ?s = ?N"
    by (simp add: mult.commute)
  have all: "fold (buildProduct_row data1 data2 (int ?s) (int w)) (for_range 1 (int h + 1))
        (replicate ?N (Fin 0), 0) = (filled ?P ?s ?N ?N, int (h * w))"
    unfolding for_range_1 rows [OF order_refl] final ..
  show "p_integral (new_ProductIntegralImage data1 data2 w h) = filled ?P ?s ?N ?N"
    and "p_stride (new_ProductIntegralImage data1 data2 w h) = Suc w"
    unfolding new_ProductIntegralImage_def buildProduct_def Let_def
    by (simp_all only: ProductIntegralImage.simps Suc_eq_plus1 [symmetric] all prod.case)
qed

lemma sum_lessThan_diff:
  "a \<le> b \<Longrightarrow> (\<Sum>i<b. f i) - (\<Sum>i<a. f i) = (\<Sum>i = a..<b. f i)" for f :: "nat \<Rightarrow> real"
  using sum.atLeastLessThan_concat [of 0 a b f] by (simp add: lessThan_atLeast0)

lemma prefix_rect:
  assumes "x1 \<le> x2" "y1 \<le> y2"
  shows "prefix_sum g (Suc x2) (Suc y2) - prefix_sum g (Suc x2) y1 - prefix_sum g x1 (Suc y2) +
           prefix_sum g x1 y1 = rect_sum g x1 y1 x2 y2"
proof -
  have y: "y1 \<le> Suc y2" and x: "x1 \<le> Suc x2"
    using assms by simp_all
  have "prefix_sum g (Suc x2) (Suc y2) - prefix_sum g (Suc x2) y1 - prefix_sum g x1 (Suc y2) +
           prefix_sum g x1 y1 =
        (prefix_sum g (Suc x2) (Suc y2) - prefix_sum g (Suc x2) y1) -
        (prefix_sum g x1 (Suc y2) - prefix_sum g x1 y1)"
    by simp
  also have "\<dots> = (\<Sum>j = y1..<Suc y2. \<Sum>i<Suc x2. g i j) - (\<Sum>j = y1..<Suc y2. \<Sum>i<x1. g i j)"
    unfolding prefix_sum_def sum_lessThan_diff [OF y] ..
  also have "\<dots> = (\<Sum>j = y1..<Suc y2. (\<Sum>i<Suc x2. g i j) - (\<Sum>i<x1. g i j))"
    by (simp only: sum_subtractf)
  also have "\<dots> = (\<Sum>j = y1..<Suc y2. \<Sum>i = x1..<Suc x2. g i j)"
    unfolding sum_lessThan_diff [OF x] ..
  finally show ?thesis
    by (simp only: rect_sum_def atLeastLessThanSuc_atLeastAtMost)
qed

lemma num_int: "num (int n) = Fin (real n)"
  by (simp add: num_def)

lemma corner_mean_filled:
  assumes "x1 \<le> x2" "x2 < w" "y1 \<le> y2" "y2 < h"
  shows "corner_mean (filled (prefix_sum g) (Suc w) (Suc w * Suc h) (Suc w * Suc h)) (int (Suc w))
           (int x1) (int y1) (int x2) (int y2) = Fin (rect_mean g x1 y1 x2 y2)"
proof -
  let ?s = "Suc w" and ?N = "Suc w * Suc h"
  let ?T = "filled (prefix_sum g) ?s ?N ?N"
  have ia: "int y1 * int ?s + int x1 = int (y1 * ?s + x1)"
    and ib: "int y1 * int ?s + int x2 + 1 = int (y1 * ?s + Suc x2)"
    and ic: "(int y2 + 1) * int ?s + int x1 = int (Suc y2 * ?s + x1)"
    and id: "(int y2 + 1) * int ?s + int x2 + 1 = int (Suc y2 * ?s + Suc x2)"
    by (simp_all add: algebra_simps)
  have area: "(int x2 - int x1 + 1) * (int y2 - int y1 + 1) = int ((x2 - x1 + 1) * (y2 - y1 + 1))"
  proof -
    have "int x2 - int x1 + 1 = int (x2 - x1 + 1)" "int y2 - int y1 + 1 = int (y2 - y1 + 1)"
      using assms(1,3) by simp_all
    then show ?thesis by (simp only: of_nat_mult)
  qed
  have entry: "rd ?T (int (y * ?s + x)) = Fin (prefix_sum g x y)" if "x < ?s" "y \<le> h" for x y
  proof -
    have "y * ?s \<le> h * ?s"
      using that(2) by (intro mult_le_mono1)
    then have "y * ?s + x < h * ?s + ?s"
      using that(1) by linarith
    then have lt: "y * ?s + x < ?N"
      by (simp add: mult.commute)
    show ?thesis
      unfolding rd_int length_filled
      by (simp only: lt if_True filled_nth idx_mod [OF that(1)] idx_div [OF that(1)])
  qed
  have xs: "x1 < ?s" "Suc x2 < ?s" and ys: "y1 \<le> h" "Suc y2 \<le> h"
    using assms by simp_all
  define n where "n = (x2 - x1 + 1) * (y2 - y1 + 1)"
  have "n \<noteq> 0"
    by (simp add: n_def)
  then have pos: "real n \<noteq> 0"
    by simp
  have "Fin (prefix_sum g (Suc x2) (Suc y2)) - Fin (prefix_sum g (Suc x2) y1) -
          Fin (prefix_sum g x1 (Suc y2)) + Fin (prefix_sum g x1 y1) = Fin (rect_sum g x1 y1 x2 y2)"
    by (simp add: prefix_rect [OF assms(1,3)])
  then show ?thesis
    unfolding corner_mean_def Let_def ia ib ic id area num_int
      entry [OF xs(1) ys(1)] entry [OF xs(2) ys(1)] entry [OF xs(1) ys(2)] entry [OF xs(2) ys(2)]
      rect_mean_def n_def [symmetric]
    using pos by simp
qed

lemma filled_full_nth:
  assumes "x \<le> w" "y \<le> h"
  shows "filled P (Suc w) (Suc w * Suc h) (Suc w * Suc h) ! (y * (w + 1) + x) = Fin (P x y)"
proof -
  have x: "x < Suc w" using assms(1) by simp
  have "y * Suc w \<le> h * Suc w"
    using assms(2) by (intro mult_le_mono1)
  then have "y * Suc w + x < h * Suc w + Suc w"
    using x by linarith
  then have lt: "y * Suc w + x < Suc w * Suc h"
    by (simp add: mult.commute)
  show ?thesis
    unfolding Suc_eq_plus1 [symmetric]
    by (simp only: lt if_True filled_nth idx_mod [OF x] idx_div [OF x])
qed

text \<open>
  C7: for source buffers of size \<open>w \<times> h\<close>, the tables built by \<^verbatim>\<open>IntegralImage\<close> and
  \<^verbatim>\<open>ProductIntegralImage\<close> have stride \<open>w + 1\<close> and hold at row \<open>y \<le> h\<close> and column \<open>x \<le> w\<close>
  the sum of the samples (of their squares, of the products of the two sources) over the
  rows \<open>[0..y)\<close> and the columns \<open>[0..x)\<close>, which is zero on row 0 and on column 0. For every
  rectangle \<open>[x1, x2] \<times> [y1, y2]\<close> within the image, \<^verbatim>\<open>getMean\<close> returns
  \<open>(D - B - C + A) / ((x2 - x1 + 1) * (y2 - y1 + 1))\<close>, which is the mean of the samples over
  the rectangle; \<^verbatim>\<open>getMeanSq\<close> returns the mean of their squares and the \<^verbatim>\<open>getMean\<close> of the
  product table the mean of the products. All sums are exact.
\<close>

theorem integral_image_mean:
  assumes "length data1 = w * h" and "length data2 = w * h"
    and "x \<le> w" and "y \<le> h"
    and "x1 \<le> x2" and "x2 < w" and "y1 \<le> y2" and "y2 < h"
  shows "ii_stride (new_IntegralImage data1 w h) = w + 1 \<and>
         length (integral (new_IntegralImage data1 w h)) = (w + 1) * (h + 1) \<and>
         integral (new_IntegralImage data1 w h) ! (y * (w + 1) + x) =
           Fin (prefix_sum (pixel data1 w) x y) \<and>
         integralSq (new_IntegralImage data1 w h) ! (y * (w + 1) + x) =
           Fin (prefix_sum (\<lambda>i j. pixel data1 w i j * pixel data1 w i j) x y) \<and>
         p_integral (new_ProductIntegralImage data1 data2 w h) ! (y * (w + 1) + x) =
           Fin (prefix_sum (\<lambda>i j. pixel data1 w i j * pixel data2 w i j) x y) \<and>
         getMean (new_IntegralImage data1 w h) (int x1) (int y1) (int x2) (int y2) =
           (rd (integral (new_IntegralImage data1 w h)) ((int y2 + 1) * (int w + 1) + int x2 + 1) -
            rd (integral (new_IntegralImage data1 w h)) (int y1 * (int w + 1) + int x2 + 1) -
            rd (integral (new_IntegralImage data1 w h)) ((int y2 + 1) * (int w + 1) + int x1) +
            rd (integral (new_IntegralImage data1 w h)) (int y1 * (int w + 1) + int x1)) /
           num ((int x2 - int x1 + 1) * (int y2 - int y1 + 1)) \<and>
         getMean (new_IntegralImage data1 w h) (int x1) (int y1) (int x2) (int y2) =
           Fin (rect_mean (pixel data1 w) x1 y1 x2 y2) \<and>
         getMeanSq (new_IntegralImage data1 w h) (int x1) (int y1) (int x2) (int y2) =
           Fin (rect_mean (\<lambda>i j. pixel data1 w i j * pixel data1 w i j) x1 y1 x2 y2) \<and>
         p_getMean (new_ProductIntegralImage data1 data2 w h) (int x1) (int y1) (int x2) (int y2) =
           Fin (rect_mean (\<lambda>i j. pixel data1 w i j * pixel data2 w i j) x1 y1 x2 y2)"
proof -
  note tabs = buildBoth_table [OF assms(1)] buildProduct_table [OF assms(1,2)]
  have "ii_stride (new_IntegralImage data1 w h) = w + 1"
    by (simp add: tabs)
  moreover have "length (integral (new_IntegralImage data1 w h)) = (w + 1) * (h + 1)"
    by (simp add: tabs length_filled)
  moreover have "integral (new_IntegralImage data1 w h) ! (y * (w + 1) + x) =
      Fin (prefix_sum (pixel data1 w) x y)"
    unfolding tabs by (rule filled_full_nth [OF assms(3,4)])
  moreover have "integralSq (new_IntegralImage data1 w h) ! (y * (w + 1) + x) =
      Fin (prefix_sum (\<lambda>i j. pixel data1 w i j * pixel data1 w i j) x y)"
    unfolding tabs by (rule filled_full_nth [OF assms(3,4)])
  moreover have "p_integral (new_ProductIntegralImage data1 data2 w h) ! (y * (w + 1) + x) =
      Fin (prefix_sum (\<lambda>i j. pixel data1 w i j * pixel data2 w i j) x y)"
    unfolding tabs by (rule filled_full_nth [OF assms(3,4)])
  moreover have "getMean (new_IntegralImage data1 w h) (int x1) (int y1) (int x2) (int y2) =
           (rd (integral (new_IntegralImage data1 w h)) ((int y2 + 1) * (int w + 1) + int x2 + 1) -
            rd (integral (new_IntegralImage data1 w h)) (int y1 * (int w + 1) + int x2 + 1) -
            rd (integral (new_IntegralImage data1 w h)) ((int y2 + 1) * (int w + 1) + int x1) +
            rd (integral (new_IntegralImage data1 w h)) (int y1 * (int w + 1) + int x1)) /
           num ((int x2 - int x1 + 1) * (int y2 - int y1 + 1))"
    by (simp add: getMean_def corner_mean_def tabs(3) add.commute)
  moreover have "getMean (new_IntegralImage data1 w h) (int x1) (int y1) (int x2) (int y2) =
      Fin (rect_mean (pixel data1 w) x1 y1 x2 y2)"
    unfolding getMean_def tabs by (rule corner_mean_filled [OF assms(5-8)])
  moreover have "getMeanSq (new_IntegralImage data1 w h) (int x1) (int y1) (int x2) (int y2) =
      Fin (rect_mean (\<lambda>i j. pixel data1 w i j * pixel data1 w i j) x1 y1 x2 y2)"
    unfolding getMeanSq_def tabs by (rule corner_mean_filled [OF assms(5-8)])
  moreover have "p_getMean (new_ProductIntegralImage data1 data2 w h) (int x1) (int y1) (int x2) (int y2) =
      Fin (rect_mean (\<lambda>i j. pixel data1 w i j * pixel data2 w i j) x1 y1 x2 y2)"
    unfolding p_getMean_def tabs by (rule corner_mean_filled [OF assms(5-8)])
  ultimately show ?thesis
    by blast
qed

theorem integral_image_mean_witness:
  "integral (new_IntegralImage [1, 2, 3, 4] 2 2) ! 8 = Fin 10 \<and>
   integralSq (new_IntegralImage [1, 2, 3, 4] 2 2) ! 8 = Fin 30 \<and>
   p_integral (new_ProductIntegralImage [1, 2, 3, 4] [5, 6, 7, 8] 2 2) ! 8 = Fin 70 \<and>
   getMean (new_IntegralImage [1, 2, 3, 4] 2 2) 1 0 1 1 = Fin 3 \<and>
   getMeanSq (new_IntegralImage [1, 2, 3, 4] 2 2) 1 0 1 1 = Fin 10 \<and>
   p_getMean (new_ProductIntegralImage [1, 2, 3, 4] [5, 6, 7, 8] 2 2) 1 0 1 1 = Fin 22"
proof -
  have len: "length [1, 2, 3, 4 :: real] = 2 * 2" "length [5, 6, 7, 8 :: real] = 2 * 2"
    and le: "(2::nat) \<le> 2" "(1::nat) \<le> 1" "(1::nat) < 2" "(0::nat) \<le> 1"
    by simp_all
  note inst = integral_image_mean [OF len le(1) le(1) le(2) le(3) le(4) le(3)]
  have vals:
    "prefix_sum (pixel [1, 2, 3, 4] 2) 2 2 = 10"
    "prefix_sum (\<lambda>i j. pixel [1, 2, 3, 4] 2 i j * pixel [1, 2, 3, 4] 2 i j) 2 2 = 30"
    "prefix_sum (\<lambda>i j. pixel [1, 2, 3, 4] 2 i j * pixel [5, 6, 7, 8] 2 i j) 2 2 = 70"
    "rect_mean (pixel [1, 2, 3, 4] 2) 1 0 1 1 = 3"
    "rect_mean (\<lambda>i j. pixel [1, 2, 3, 4] 2 i j * pixel [1, 2, 3, 4] 2 i j) 1 0 1 1 = 10"
    "rect_mean (\<lambda>i j. pixel [1, 2, 3, 4] 2 i j * pixel [5, 6, 7, 8] 2 i j) 1 0 1 1 = 22"
    by (simp_all add: prefix_sum_def rect_mean_def rect_sum_def pixel_def numeral_2_eq_2 lessThan_Suc
          atLeastAtMostSuc_conv)
  have i8: "2 * (2 + 1) + 2 = (8::nat)" and z: "int 0 = 0" "int 1 = 1"
    by simp_all
  show ?thesis
    using inst unfolding vals i8 z by blast
qed

section \<open>The Gaussian kernel and its cache\<close>

lemma for_range_0: "for_range 0 (int n) = map int [0..<n]"
  using for_range_nat [of 0 n] by simp

lemma gauss_code:
  "sigma \<noteq> 0 \<Longrightarrow>
   Math_exp (- num ((int x - int ws div 2) * (int x - int ws div 2) +
                    (int y - int ws div 2) * (int y - int ws div 2)) / (Fin 2 * Fin sigma * Fin sigma)) =
   Fin (gauss ws sigma x y)"
proof -
  assume sigma: "sigma \<noteq> 0"
  have c: "int ws div 2 = int (ws div 2)"
    by simp
  show ?thesis
    unfolding c using sigma
    by (simp add: num_def gauss_def Let_def power2_eq_square mult.assoc)
qed

lemma kernel_cell_step:
  assumes "sigma \<noteq> 0" "x < ws" "y < ws" "n = y * ws + x"
  shows "kernel_cell (int ws) (Fin sigma) (int y) (int x)
           (filled (gauss ws sigma) ws (ws * ws) n, Fin S) =
         (filled (gauss ws sigma) ws (ws * ws) (Suc n), Fin (S + gauss ws sigma x y))"
proof -
  have idx: "int y * int ws + int x = int n"
    by (simp add: assms(4))
  have md: "n mod ws = x" "n div ws = y"
    unfolding assms(4) by (simp_all only: idx_mod [OF assms(2)] idx_div [OF assms(2)])
  show ?thesis
    unfolding kernel_cell_def Let_def prod.case idx wr_int gauss_code [OF assms(1)]
      filled_step [symmetric] md
    by simp
qed

lemma kernel_fill:
  assumes "sigma \<noteq> 0"
  shows "fold (\<lambda>y. fold (kernel_cell (int ws) (Fin sigma) y) (map int [0..<ws]))
           (map int [0..<ws]) (replicate (ws * ws) (Fin 0), Fin 0) =
         (filled (gauss ws sigma) ws (ws * ws) (ws * ws), Fin (gauss_total ws sigma))"
proof -
  let ?g = "gauss ws sigma" and ?N = "ws * ws"
  have row: "k \<le> ws \<Longrightarrow>
      fold (kernel_cell (int ws) (Fin sigma) (int y)) (map int [0..<k]) (filled ?g ws ?N (y * ws), Fin S) =
      (filled ?g ws ?N (y * ws + k), Fin (S + (\<Sum>i<k. ?g i y)))" if "y < ws" for y k S
  proof (induction k)
    case 0
    show ?case by simp
  next
    case (Suc k)
    then have k: "k < ws" by simp
    show ?case
      using Suc kernel_cell_step [OF assms k that refl]
      by (simp add: add.assoc del: of_nat_add of_nat_mult)
  qed
  have rows: "m \<le> ws \<Longrightarrow>
      fold (\<lambda>y. fold (kernel_cell (int ws) (Fin sigma) y) (map int [0..<ws])) (map int [0..<m])
        (filled ?g ws ?N 0, Fin 0) =
      (filled ?g ws ?N (m * ws), Fin (\<Sum>j<m. \<Sum>i<ws. ?g i j))" for m
  proof (induction m)
    case 0
    show ?case by simp
  next
    case (Suc m)
    then have m: "m < ws" by simp
    show ?case
      using Suc row [OF m order_refl]
      by (simp add: add.commute del: of_nat_add of_nat_mult)
  qed
  have zero: "replicate ?N (Fin 0) = filled ?g ws ?N 0"
    by (rule filled_zero [symmetric]) simp
  show ?thesis
    unfolding zero rows [OF order_refl] gauss_total_def ..
qed

lemma normalize_loop:
  "m \<le> length k \<Longrightarrow>
   fold (\<lambda>i kern. wr kern i (rd kern i / d)) (map int [0..<m]) k =
   map (\<lambda>i. if i < m then k ! i / d else k ! i) [0..<length k]"
proof (induction m)
  case 0
  show ?case by (simp add: map_nth)
next
  case (Suc m)
  then have m: "m < length k" by simp
  have "(map (\<lambda>i. if i < m then k ! i / d else k ! i) [0..<length k])[m := k ! m / d] =
        map (\<lambda>i. if i < Suc m then k ! i / d else k ! i) [0..<length k]"
    by (rule nth_equalityI) (auto simp: nth_list_update less_Suc_eq)
  with Suc m show ?case
    by (simp add: wr_int rd_int)
qed

lemma gauss_pos: "0 < gauss ws sigma x y"
  by (simp add: gauss_def Let_def)

lemma gauss_total_pos: "0 < ws \<Longrightarrow> 0 < gauss_total ws sigma"
proof -
  assume "0 < ws"
  then have ne: "{..<ws} \<noteq> {}"
    by auto
  show ?thesis
    unfolding gauss_total_def
    by (intro sum_pos gauss_pos finite_lessThan ne)
qed

lemma createGaussianKernel_eq:
  assumes "sigma \<noteq> 0" "0 < ws"
  shows "createGaussianKernel ws sigma =
         map (\<lambda>i. Fin (gauss ws sigma (i mod ws) (i div ws) / gauss_total ws sigma)) [0..<ws * ws]"
proof -
  have t: "gauss_total ws sigma \<noteq> 0"
    using gauss_total_pos [OF assms(2), of sigma] by simp
  have "createGaussianKernel ws sigma =
        map (\<lambda>i. if i < ws * ws
                   then filled (gauss ws sigma) ws (ws * ws) (ws * ws) ! i / Fin (gauss_total ws sigma)
                   else filled (gauss ws sigma) ws (ws * ws) (ws * ws) ! i) [0..<ws * ws]"
    unfolding createGaussianKernel_def Let_def for_range_0 kernel_fill [OF assms(1)] prod.case
    by (subst normalize_loop) (simp_all add: length_filled)
  also have "\<dots> = map (\<lambda>i. Fin (gauss ws sigma (i mod ws) (i div ws) / gauss_total ws sigma)) [0..<ws * ws]"
    using t by (intro map_cong refl) (simp add: filled_nth)
  finally show ?thesis .
qed

lemma sum_rows:
  "(\<Sum>i<m * q. F (i mod q) (i div q)) = (\<Sum>j<m. \<Sum>i<q. F i j)" for F :: "nat \<Rightarrow> nat \<Rightarrow> real"
proof (induction m)
  case 0
  show ?case by simp
next
  case (Suc m)
  have "(\<Sum>i<Suc m * q. F (i mod q) (i div q)) =
        (\<Sum>i<m * q. F (i mod q) (i div q)) + (\<Sum>i = m * q..<m * q + q. F (i mod q) (i div q))"
    using sum.atLeastLessThan_concat [of 0 "m * q" "m * q + q" "\<lambda>i. F (i mod q) (i div q)"]
    by (simp add: lessThan_atLeast0 add.commute)
  also have "(\<Sum>i = m * q..<m * q + q. F (i mod q) (i div q)) = (\<Sum>i = 0..<q. F ((i + m * q) mod q) ((i + m * q) div q))"
    using sum.shift_bounds_nat_ivl [of "\<lambda>i. F (i mod q) (i div q)" 0 "m * q" q]
    by (simp add: add.commute)
  also have "\<dots> = (\<Sum>i<q. F i m)"
    unfolding lessThan_atLeast0 by (intro sum.cong refl) simp
  finally show ?case
    using Suc by simp
qed

lemma kernel_sum_Fin:
  "fold (\<lambda>v total. total + v) (map (\<lambda>i. Fin (f i)) [0..<n]) (Fin a) = Fin (a + (\<Sum>i<n. f i))"
  by (induction n) (simp_all add: add.assoc)

lemma kernel_sum_spec:
  assumes "sigma \<noteq> 0" "0 < ws"
  shows "kernel_sum (createGaussianKernel ws sigma) = Fin 1"
proof -
  have t: "gauss_total ws sigma \<noteq> 0"
    using gauss_total_pos [OF assms(2), of sigma] by simp
  have "(\<Sum>i<ws * ws. gauss ws sigma (i mod ws) (i div ws) / gauss_total ws sigma) =
        (\<Sum>i<ws * ws. gauss ws sigma (i mod ws) (i div ws)) / gauss_total ws sigma"
    by (simp add: sum_divide_distrib)
  also have "\<dots> = 1"
    unfolding sum_rows gauss_total_def [symmetric] using t by simp
  finally show ?thesis
    by (simp add: kernel_sum_def createGaussianKernel_eq [OF assms] kernel_sum_Fin)
qed

lemma getOrCreateKernel_hit:
  "kernelCache (windowSize, sigma) = Some kern \<Longrightarrow>
   getOrCreateKernel kernelCache windowSize sigma = (kern, kernelCache)"
  by (simp add: getOrCreateKernel_def)

lemma getOrCreateKernel_ok:
  assumes "cache_ok kernelCache"
    and "getOrCreateKernel kernelCache windowSize sigma = (kern, kernelCache')"
  shows "kern = createGaussianKernel windowSize sigma \<and> cache_ok kernelCache' \<and>
         kernelCache' (windowSize, sigma) = Some kern"
proof (cases "kernelCache (windowSize, sigma)")
  case None
  with assms(2) have "kern = createGaussianKernel windowSize sigma"
    "kernelCache' = kernelCache((windowSize, sigma) \<mapsto> kern)"
    by (auto simp: getOrCreateKernel_def Let_def)
  with assms(1) show ?thesis
    by (auto simp: cache_ok_def)
next
  case (Some k)
  with assms(2) have "kern = k" "kernelCache' = kernelCache"
    by (auto simp: getOrCreateKernel_def)
  with assms(1) Some show ?thesis
    by (auto simp: cache_ok_def)
qed

text \<open>
  C8, amended: for every window size of at least 1 and every non-zero sigma, a call of the
  kernel getter returns the normalized Gaussian kernel: \<open>windowSize\<^sup>2\<close> positive weights, the
  one of the cell \<open>(x, y)\<close> being \<open>exp(-((x - c)\<^sup>2 + (y - c)\<^sup>2) / (2 \<sigma>\<^sup>2))\<close> divided by the sum
  over the grid, with \<open>c = floor(windowSize / 2)\<close>, and the weights sum to 1 (in exact
  arithmetic). The kernel is in the cache afterwards, and a call with a key that is in the
  cache returns the stored kernel and leaves the cache as it is, without building anything.
\<close>

theorem kernel_getter:
  assumes "cache_ok kernelCache" and "0 < windowSize" and "sigma \<noteq> 0"
    and "getOrCreateKernel kernelCache windowSize sigma = (kern, kernelCache')"
    and "x < windowSize" and "y < windowSize"
  shows "length kern = windowSize * windowSize \<and>
         kern ! (y * windowSize + x) =
           Fin (gauss windowSize sigma x y / gauss_total windowSize sigma) \<and>
         0 < gauss windowSize sigma x y / gauss_total windowSize sigma \<and>
         kernel_sum kern = Fin 1 \<and>
         cache_ok kernelCache' \<and>
         kernelCache' (windowSize, sigma) = Some kern \<and>
         getOrCreateKernel kernelCache' windowSize sigma = (kern, kernelCache') \<and>
         (\<forall>cache stored. cache (windowSize, sigma) = Some stored \<longrightarrow>
            getOrCreateKernel cache windowSize sigma = (stored, cache))"
proof -
  note ok = getOrCreateKernel_ok [OF assms(1,4)]
  have kern: "kern = map (\<lambda>i. Fin (gauss windowSize sigma (i mod windowSize) (i div windowSize) /
                                   gauss_total windowSize sigma)) [0..<windowSize * windowSize]"
    using ok createGaussianKernel_eq [OF assms(3,2)] by simp
  have "y * windowSize \<le> (windowSize - 1) * windowSize"
    using assms(6) by (intro mult_le_mono1) simp
  then have "y * windowSize + x < (windowSize - 1) * windowSize + windowSize"
    using assms(5) by linarith
  also have "\<dots> = windowSize * windowSize"
    using assms(2) by (simp add: algebra_simps)
  finally have lt: "y * windowSize + x < windowSize * windowSize" .
  have "length kern = windowSize * windowSize"
    by (simp add: kern)
  moreover have "kern ! (y * windowSize + x) =
      Fin (gauss windowSize sigma x y / gauss_total windowSize sigma)"
    unfolding kern using lt
    by (simp only: nth_map length_upt nth_upt diff_zero add_0 idx_mod [OF assms(5)] idx_div [OF assms(5)])
  moreover have "0 < gauss windowSize sigma x y / gauss_total windowSize sigma"
    by (intro divide_pos_pos gauss_pos gauss_total_pos assms(2))
  moreover have "kernel_sum kern = Fin 1"
    using ok kernel_sum_spec [OF assms(3,2)] by simp
  moreover have "getOrCreateKernel kernelCache' windowSize sigma = (kern, kernelCache')"
    using ok by (intro getOrCreateKernel_hit) simp
  ultimately show ?thesis
    using ok by (simp add: getOrCreateKernel_hit)
qed

theorem kernel_getter_witness:
  "fst (getOrCreateKernel Map.empty 3 DEFAULT_SIGMA) ! 4 =
     Fin (gauss 3 DEFAULT_SIGMA 1 1 / gauss_total 3 DEFAULT_SIGMA) \<and>
   length (fst (getOrCreateKernel Map.empty 3 DEFAULT_SIGMA)) = 9 \<and>
   kernel_sum (fst (getOrCreateKernel Map.empty 3 DEFAULT_SIGMA)) = Fin 1 \<and>
   getOrCreateKernel (snd (getOrCreateKernel Map.empty 3 DEFAULT_SIGMA)) 3 DEFAULT_SIGMA =
     getOrCreateKernel Map.empty 3 DEFAULT_SIGMA"
proof -
  have ok: "cache_ok Map.empty"
    by (simp add: cache_ok_def)
  have pos: "(0::nat) < 3" "(1::nat) < 3" and sigma: "DEFAULT_SIGMA \<noteq> 0"
    by (simp_all add: DEFAULT_SIGMA_def)
  have pair: "getOrCreateKernel Map.empty 3 DEFAULT_SIGMA =
      (fst (getOrCreateKernel Map.empty 3 DEFAULT_SIGMA), snd (getOrCreateKernel Map.empty 3 DEFAULT_SIGMA))"
    by simp
  have i4: "1 * 3 + 1 = (4::nat)" "3 * 3 = (9::nat)"
    by simp_all
  show ?thesis
    using kernel_getter [OF ok pos(1) sigma pair pos(2) pos(2)] unfolding i4 by simp
qed

text \<open>
  C8, as stated for every window size and sigma, fails: for the window size 0 the kernel is
  empty and its entries sum to 0, and for sigma 0 the kernel of window size 1 is \<open>[NaN]\<close>.
\<close>

theorem kernel_getter_counterexample:
  "fst (getOrCreateKernel Map.empty 0 DEFAULT_SIGMA) = [] \<and>
   kernel_sum (fst (getOrCreateKernel Map.empty 0 DEFAULT_SIGMA)) = Fin 0 \<and>
   fst (getOrCreateKernel Map.empty 1 0) = [NaN]"
  by (simp add: getOrCreateKernel_def createGaussianKernel_def kernel_sum_def for_range_def
        kernel_cell_def wr_def rd_def num_def Let_def)

section \<open>Identical images\<close>

lemma rect_sum_const:
  "x1 \<le> x2 \<Longrightarrow> y1 \<le> y2 \<Longrightarrow>
   rect_sum (\<lambda>i j. c) x1 y1 x2 y2 = c * real ((x2 - x1 + 1) * (y2 - y1 + 1))"
proof -
  assume le: "x1 \<le> x2" "y1 \<le> y2"
  have cards: "card {y1..y2} = y2 - y1 + 1" "card {x1..x2} = x2 - x1 + 1"
    using le by simp_all
  have "rect_sum (\<lambda>i j. c) x1 y1 x2 y2 = real (card {y1..y2}) * (real (card {x1..x2}) * c)"
    by (simp add: rect_sum_def)
  then show ?thesis
    unfolding cards by (simp only: of_nat_mult mult_ac)
qed

lemma rect_sum_square_expand:
  "rect_sum (\<lambda>i j. (g i j - m) * (g i j - m)) x1 y1 x2 y2 =
   rect_sum (\<lambda>i j. g i j * g i j) x1 y1 x2 y2 - 2 * m * rect_sum g x1 y1 x2 y2 +
   rect_sum (\<lambda>i j. m * m) x1 y1 x2 y2"
proof -
  have "(g i j - m) * (g i j - m) = g i j * g i j - 2 * m * g i j + m * m" for i j
    by (simp add: algebra_simps)
  then show ?thesis
    by (simp add: rect_sum_def sum.distrib sum_subtractf sum_distrib_left)
qed

lemma rect_variance_nonneg:
  assumes "x1 \<le> x2" "y1 \<le> y2"
  shows "rect_mean g x1 y1 x2 y2 * rect_mean g x1 y1 x2 y2 \<le>
         rect_mean (\<lambda>i j. g i j * g i j) x1 y1 x2 y2"
proof -
  define n where "n = real ((x2 - x1 + 1) * (y2 - y1 + 1))"
  define m where "m = rect_mean g x1 y1 x2 y2"
  have "0 < (x2 - x1 + 1) * (y2 - y1 + 1)"
    by simp
  then have n: "0 < n"
    unfolding n_def by (simp only: of_nat_0_less_iff)
  have S1: "rect_sum g x1 y1 x2 y2 = m * n"
    using n by (simp add: m_def rect_mean_def n_def)
  have "0 \<le> rect_sum (\<lambda>i j. (g i j - m) * (g i j - m)) x1 y1 x2 y2"
    unfolding rect_sum_def by (intro sum_nonneg) simp
  also have "\<dots> = rect_sum (\<lambda>i j. g i j * g i j) x1 y1 x2 y2 - 2 * m * (m * n) + m * m * n"
    unfolding rect_sum_square_expand S1 rect_sum_const [OF assms] n_def ..
  finally have "m * m * n \<le> rect_sum (\<lambda>i j. g i j * g i j) x1 y1 x2 y2"
    by (simp add: algebra_simps)
  then have "m * m \<le> rect_sum (\<lambda>i j. g i j * g i j) x1 y1 x2 y2 / n"
    using n by (simp add: pos_le_divide_eq)
  then show ?thesis
    by (simp add: m_def rect_mean_def [of "\<lambda>i j. g i j * g i j"] n_def)
qed

lemma ssim_identical:
  assumes "0 < c1" "0 < c2" "0 \<le> v"
  shows "(Fin 2 * (Fin m * Fin m) + Fin c1) * (Fin 2 * Fin v + Fin c2) /
         ((Fin m * Fin m + Fin m * Fin m + Fin c1) * (Fin v + Fin v + Fin c2)) = Fin 1"
proof -
  define d where "d = (m * m + m * m + c1) * (v + v + c2)"
  have "0 < m * m + m * m + c1"
    using assms(1) by (intro add_nonneg_pos add_nonneg_nonneg) simp_all
  moreover have "0 < v + v + c2"
    using assms(2,3) by (intro add_nonneg_pos add_nonneg_nonneg)
  ultimately have "0 < d"
    unfolding d_def by (rule mult_pos_pos)
  then have d: "d \<noteq> 0"
    by simp
  have two: "2 * (m * m) = m * m + m * m" "2 * v = v + v"
    by simp_all
  have "(Fin 2 * (Fin m * Fin m) + Fin c1) * (Fin 2 * Fin v + Fin c2) = Fin d"
    by (simp only: times_jsnum.simps plus_jsnum.simps two d_def)
  moreover have "(Fin m * Fin m + Fin m * Fin m + Fin c1) * (Fin v + Fin v + Fin c2) = Fin d"
    by (simp only: times_jsnum.simps plus_jsnum.simps d_def)
  moreover have "Fin d / Fin d = Fin 1"
    using d by simp
  ultimately show ?thesis
    by (simp only:)
qed

lemma fast_cell_identical:
  assumes "length dat = w * h" and "0 < hs"
    and "int hs \<le> x" and "x < int w - int hs"
    and "int hs \<le> y" and "y < int h - int hs"
    and "0 < c1" and "0 < c2"
  shows "fast_cell (new_IntegralImage dat w h) (new_IntegralImage dat w h)
           (new_ProductIntegralImage dat dat w h) (int w) (int h) (int hs) (Fin c1) (Fin c2) x y = Fin 1"
proof -
  define x1 where "x1 = nat (x - int hs)"
  define x2 where "x2 = nat (x + int hs - 1)"
  define y1 where "y1 = nat (y - int hs)"
  define y2 where "y2 = nat (y + int hs - 1)"
  have bx: "max 0 (x - int hs) = int x1" "min (int w - 1) (x + int hs - 1) = int x2"
    and bys: "max 0 (y - int hs) = int y1" "min (int h - 1) (y + int hs - 1) = int y2"
    using assms(2-6) by (simp_all add: x1_def x2_def y1_def y2_def)
  have rect: "x1 \<le> x2" "x2 < w" "y1 \<le> y2" "y2 < h"
    using assms(2-6) by (simp_all add: x1_def x2_def y1_def y2_def nat_le_iff nat_less_iff)
  note tabs = buildBoth_table [OF assms(1)] buildProduct_table [OF assms(1,1)]
  define m where "m = rect_mean (pixel dat w) x1 y1 x2 y2"
  define q where "q = rect_mean (\<lambda>i j. pixel dat w i j * pixel dat w i j) x1 y1 x2 y2"
  have mu: "getMean (new_IntegralImage dat w h) (int x1) (int y1) (int x2) (int y2) = Fin m"
    unfolding getMean_def tabs m_def by (rule corner_mean_filled [OF rect])
  have sq: "getMeanSq (new_IntegralImage dat w h) (int x1) (int y1) (int x2) (int y2) = Fin q"
    unfolding getMeanSq_def tabs q_def by (rule corner_mean_filled [OF rect])
  have pr: "p_getMean (new_ProductIntegralImage dat dat w h) (int x1) (int y1) (int x2) (int y2) = Fin q"
    unfolding p_getMean_def tabs q_def by (rule corner_mean_filled [OF rect])
  have v: "Fin q - Fin m * Fin m = Fin (q - m * m)"
    by simp
  have "0 \<le> q - m * m"
    using rect_variance_nonneg [OF rect(1,3), of "pixel dat w"] by (simp add: m_def q_def)
  then show ?thesis
    unfolding fast_cell_def Let_def bx bys mu sq pr v
    by (rule ssim_identical [OF assms(7,8)])
qed

lemma cells_const:
  assumes "\<And>x y. startX \<le> x \<Longrightarrow> x < endX \<Longrightarrow> startY \<le> y \<Longrightarrow> y < endY \<Longrightarrow> f x y = c"
  shows "cells f startX endX startY endY = replicate (nat (endY - startY) * nat (endX - startX)) c"
proof -
  have "set (cells f startX endX startY endY) \<subseteq> {c}"
    unfolding cells_def using assms by (auto simp: set_for_range)
  then have "\<forall>j<length (cells f startX endX startY endY). cells f startX endX startY endY ! j = c"
    using nth_mem by blast
  then show ?thesis
    by (intro replicate_eqI) (auto simp: length_cells in_set_conv_nth)
qed

lemma mean_ones:
  assumes "0 < n"
  shows "Fin (real (length (replicate n (Fin (1::real)))) * 1) / num (int (length (replicate n (Fin (1::real))))) = Fin 1"
  using assms by (simp add: num_def)

lemma calculateSSIMFast_identical:
  assumes "length (data img) = width img * height img"
    and "option_or options opt_k1 DEFAULT_K1 * option_or options opt_L DEFAULT_L \<noteq> 0"
    and "option_or options opt_k2 DEFAULT_K2 * option_or options opt_L DEFAULT_L \<noteq> 0"
    and "option_or options opt_windowSize FAST_DEFAULT_WINDOW_SIZE = windowSize"
    and "2 \<le> windowSize" and "windowSize < 2 ^ 31"
    and "2 * (windowSize div 2) < width img" and "2 * (windowSize div 2) < height img"
  shows "calculateSSIMFast img img options =
         Inr \<lparr>mssim = Fin 1,
              ssim_map = replicate ((width img - 2 * (windowSize div 2)) * (height img - 2 * (windowSize div 2)))
                           (Fin 1)\<rparr>"
proof -
  define hs where "hs = windowSize div 2"
  define halfSize where "halfSize = shr1 windowSize"
  define w where "w = width img"
  define h where "h = height img"
  define c1 where "c1 = (option_or options opt_k1 DEFAULT_K1 * option_or options opt_L DEFAULT_L) *
                        (option_or options opt_k1 DEFAULT_K1 * option_or options opt_L DEFAULT_L)"
  define c2 where "c2 = (option_or options opt_k2 DEFAULT_K2 * option_or options opt_L DEFAULT_L) *
                        (option_or options opt_k2 DEFAULT_K2 * option_or options opt_L DEFAULT_L)"
  define n where "n = (w - 2 * hs) * (h - 2 * hs)"
  have half: "halfSize = int hs"
    unfolding halfSize_def hs_def by (rule shr1_small [OF assms(6)])
  have hs: "0 < hs"
    using assms(5) by (simp add: hs_def)
  have c: "0 < c1" "0 < c2"
    using assms(2,3) unfolding c1_def c2_def power2_eq_square [symmetric] by simp_all
  have dims: "2 * hs < w" "2 * hs < h"
    using assms(7,8) by (simp_all add: hs_def w_def h_def)
  have vw: "0 \<le> int w - int hs - int hs" and vh: "0 \<le> int h - int hs - int hs"
    using dims by linarith+
  have neg: "\<not> (int w - int hs - int hs) * (int h - int hs - int hs) < 0"
    using vw vh by (simp add: not_less)
  have "nat (int h - int hs - int hs) = h - 2 * hs" "nat (int w - int hs - int hs) = w - 2 * hs"
    by linarith+
  then have len: "nat (int h - int hs - int hs) * nat (int w - int hs - int hs) = n"
    by (simp only: n_def mult.commute)
  have pos: "0 < n"
    using dims by (simp add: n_def)
  have one: "fast_cell (new_IntegralImage (data img) w h) (new_IntegralImage (data img) w h)
               (new_ProductIntegralImage (data img) (data img) w h) (int w) (int h) (int hs)
               (Fin c1) (Fin c2) x y = Fin 1"
    if "int hs \<le> x" "x < int w - int hs" "int hs \<le> y" "y < int h - int hs" for x y
    using assms(1) hs that c unfolding w_def h_def by (rule fast_cell_identical)
  have M: "overwrite (replicate (nat ((int w - int hs - int hs) * (int h - int hs - int hs))) (Fin 0))
             (cells (fast_cell (new_IntegralImage (data img) w h) (new_IntegralImage (data img) w h)
                (new_ProductIntegralImage (data img) (data img) w h) (int w) (int h) (int hs)
                (Fin c1) (Fin c2)) (int hs) (int w - int hs) (int hs) (int h - int hs)) =
           replicate n (Fin 1)"
    unfolding valid_region_map [OF vw vh] len [symmetric] by (intro cells_const one)
  have mean: "fast_mean (replicate n (Fin 1)) = Fin 1"
    using fast_mean_const [of "replicate n (Fin 1)" 1] mean_ones [OF pos] by simp
  show ?thesis
    unfolding calculateSSIMFast_result [OF refl refl] Let_def assms(4)
    unfolding halfSize_def [symmetric] half w_def [symmetric] h_def [symmetric]
      c1_def [symmetric] c2_def [symmetric] M mean
    using neg by (simp add: n_def hs_def)
qed

lemma fold_pos:
  assumes "P s" and "xs \<noteq> []"
    and "\<And>x s. x \<in> set xs \<Longrightarrow> P s \<Longrightarrow> Q (f x s)"
    and "\<And>s. Q s \<Longrightarrow> P s"
  shows "Q (fold f xs s)"
  using assms(1-3)
proof (induction xs arbitrary: s)
  case Nil
  then show ?case
    by simp
next
  case (Cons a xs)
  have Qa: "Q (f a s)"
    using Cons.prems(1,3) by simp
  show ?case
  proof (cases "xs = []")
    case True
    then show ?thesis
      using Qa by simp
  next
    case False
    have "Q (fold f xs (f a s))"
      using assms(4) [OF Qa] False Cons.prems(3) by (intro Cons.IH) simp_all
    then show ?thesis
      by simp
  qed
qed

lemma window_fold_pos:
  assumes "\<And>px py. px \<in> set xs \<Longrightarrow> py \<in> set ys \<Longrightarrow>
             \<exists>v t. 0 < t \<and>
               rd kern ((py - y + windowSize div 2) * windowSize + (px - x + windowSize div 2)) = Fin t \<and>
               rdd dat (py * w + px) = Fin v"
    and "xs \<noteq> []" and "ys \<noteq> []"
  shows "\<exists>S W. 0 < W \<and>
           fold (\<lambda>py. fold (window_cell dat w x y windowSize kern py) xs) ys (Fin 0, Fin 0) = (Fin S, Fin W)"
proof -
  define P :: "jsnum \<times> jsnum \<Rightarrow> bool" where "P = (\<lambda>s. \<exists>S W. 0 \<le> W \<and> s = (Fin S, Fin W))"
  define Q :: "jsnum \<times> jsnum \<Rightarrow> bool" where "Q = (\<lambda>s. \<exists>S W. 0 < W \<and> s = (Fin S, Fin W))"
  have QP: "P s" if "Q s" for s
    using that unfolding P_def Q_def by auto
  have cell: "Q (window_cell dat w x y windowSize kern py px s)"
    if px: "px \<in> set xs" and py: "py \<in> set ys" and Ps: "P s" for px py s
  proof -
    obtain S W where s: "s = (Fin S, Fin W)" and W: "0 \<le> W"
      using Ps unfolding P_def by blast
    obtain v t where t: "0 < t"
      and k: "rd kern ((py - y + windowSize div 2) * windowSize + (px - x + windowSize div 2)) = Fin t"
      and d: "rdd dat (py * w + px) = Fin v"
      using assms(1) [OF px py] by blast
    have "window_cell dat w x y windowSize kern py px s = (Fin (S + v * t), Fin (W + t))"
      by (simp add: window_cell_def Let_def s k d)
    moreover have "0 < W + t"
      using W t by simp
    ultimately show ?thesis
      unfolding Q_def by blast
  qed
  have row: "Q (fold (window_cell dat w x y windowSize kern py) xs s)" if "py \<in> set ys" "P s" for py s
    using that(2) assms(2) cell [OF _ that(1)] QP by (rule fold_pos [where P = P])
  have "P (Fin 0, Fin 0)"
    unfolding P_def by blast
  then have "Q (fold (\<lambda>py. fold (window_cell dat w x y windowSize kern py) xs) ys (Fin 0, Fin 0))"
    using assms(3) row QP by (rule fold_pos [where P = P])
  then show ?thesis
    unfolding Q_def by blast
qed

lemma moment_fold_pos:
  assumes "\<And>px py. px \<in> set xs \<Longrightarrow> py \<in> set ys \<Longrightarrow>
             \<exists>v t. 0 < t \<and>
               rd kern ((py - y + windowSize div 2) * windowSize + (px - x + windowSize div 2)) = Fin t \<and>
               rdd dat (py * w + px) = Fin v"
    and "xs \<noteq> []" and "ys \<noteq> []"
  shows "\<exists>a W. 0 \<le> a \<and> 0 < W \<and>
           fold (\<lambda>py. fold (moment_cell dat dat w x y windowSize kern (Fin m) (Fin m) py) xs) ys
             (Fin 0, Fin 0, Fin 0, Fin 0) = (Fin a, Fin a, Fin a, Fin W)"
proof -
  define P :: "jsnum \<times> jsnum \<times> jsnum \<times> jsnum \<Rightarrow> bool"
    where "P = (\<lambda>s. \<exists>a W. 0 \<le> a \<and> 0 \<le> W \<and> s = (Fin a, Fin a, Fin a, Fin W))"
  define Q :: "jsnum \<times> jsnum \<times> jsnum \<times> jsnum \<Rightarrow> bool"
    where "Q = (\<lambda>s. \<exists>a W. 0 \<le> a \<and> 0 < W \<and> s = (Fin a, Fin a, Fin a, Fin W))"
  have QP: "P s" if "Q s" for s
    using that unfolding P_def Q_def by auto
  have cell: "Q (moment_cell dat dat w x y windowSize kern (Fin m) (Fin m) py px s)"
    if px: "px \<in> set xs" and py: "py \<in> set ys" and Ps: "P s" for px py s
  proof -
    obtain a W where s: "s = (Fin a, Fin a, Fin a, Fin W)" and a: "0 \<le> a" and W: "0 \<le> W"
      using Ps unfolding P_def by blast
    obtain v t where t: "0 < t"
      and k: "rd kern ((py - y + windowSize div 2) * windowSize + (px - x + windowSize div 2)) = Fin t"
      and d: "rdd dat (py * w + px) = Fin v"
      using assms(1) [OF px py] by blast
    define a' where "a' = a + t * (v - m) * (v - m)"
    have "moment_cell dat dat w x y windowSize kern (Fin m) (Fin m) py px s =
          (Fin a', Fin a', Fin a', Fin (W + t))"
      by (simp add: moment_cell_def Let_def s k d a'_def)
    moreover have "0 < W + t"
      using W t by simp
    moreover have "0 \<le> t * ((v - m) * (v - m))"
      using t by (intro mult_nonneg_nonneg zero_le_square) simp
    then have "0 \<le> a'"
      using a by (simp add: a'_def mult.assoc)
    ultimately show ?thesis
      unfolding Q_def by blast
  qed
  have row: "Q (fold (moment_cell dat dat w x y windowSize kern (Fin m) (Fin m) py) xs s)"
    if "py \<in> set ys" "P s" for py s
    using that(2) assms(2) cell [OF _ that(1)] QP by (rule fold_pos [where P = P])
  have "P (Fin 0, Fin 0, Fin 0, Fin 0)"
    unfolding P_def by (intro exI [of _ 0]) simp
  then have "Q (fold (\<lambda>py. fold (moment_cell dat dat w x y windowSize kern (Fin m) (Fin m) py) xs) ys
                 (Fin 0, Fin 0, Fin 0, Fin 0))"
    using assms(3) row QP by (rule fold_pos [where P = P])
  then show ?thesis
    unfolding Q_def by blast
qed

lemma calculateLocalSSIM_identical:
  assumes len: "length dat = w * h"
    and kern: "\<And>k. 0 \<le> k \<Longrightarrow> k < (2 * int hs + 1) * (2 * int hs + 1) \<Longrightarrow> \<exists>t>0. rd kern k = Fin t"
    and x: "int hs \<le> x" "x < int w - int hs"
    and y: "int hs \<le> y" "y < int h - int hs"
    and c: "0 < c1" "0 < c2"
  shows "calculateLocalSSIM dat dat (int w) (int h) x y (2 * int hs + 1) kern (Fin c1) (Fin c2) = Fin 1"
proof -
  define ws where "ws = 2 * int hs + 1"
  define xs where "xs = for_range (x - int hs) (x + int hs + 1)"
  define ys where "ys = for_range (y - int hs) (y + int hs + 1)"
  have half: "ws div 2 = int hs"
    by (simp add: ws_def)
  have bx: "max 0 (x - int hs) = x - int hs" "min (int w) (x + int hs + 1) = x + int hs + 1"
    and bys: "max 0 (y - int hs) = y - int hs" "min (int h) (y + int hs + 1) = y + int hs + 1"
    using x y by simp_all
  have "x \<in> set xs" "y \<in> set ys"
    by (simp_all add: xs_def ys_def set_for_range)
  then have ne: "xs \<noteq> []" "ys \<noteq> []"
    by auto
  have cell: "\<exists>v t. 0 < t \<and>
                rd kern ((py - y + ws div 2) * ws + (px - x + ws div 2)) = Fin t \<and>
                rdd dat (py * int w + px) = Fin v"
    if px: "px \<in> set xs" and py: "py \<in> set ys" for px py
  proof -
    have pxr: "x - int hs \<le> px" "px \<le> x + int hs" and pyr: "y - int hs \<le> py" "py \<le> y + int hs"
      using px py by (simp_all add: xs_def ys_def set_for_range)
    define kx where "kx = px - x + int hs"
    define ky where "ky = py - y + int hs"
    have k: "0 \<le> kx" "kx \<le> 2 * int hs" "0 \<le> ky" "ky \<le> 2 * int hs"
      using pxr pyr by (simp_all add: kx_def ky_def)
    have ws0: "0 \<le> ws"
      by (simp add: ws_def)
    have lo: "0 \<le> ky * ws + kx"
      using k ws0 by simp
    have "ky * ws \<le> (2 * int hs) * ws"
      using k(4) ws0 by (rule mult_right_mono)
    moreover have "(2 * int hs) * ws + kx < (2 * int hs) * ws + ws"
      using k(2) by (simp add: ws_def)
    moreover have "(2 * int hs) * ws + ws = ws * ws"
      by (simp add: ws_def algebra_simps)
    ultimately have hi: "ky * ws + kx < ws * ws"
      by linarith
    obtain t where t: "0 < t" "rd kern (ky * ws + kx) = Fin t"
      using kern [of "ky * ws + kx"] lo hi unfolding ws_def by blast
    define pxn where "pxn = nat px"
    define pyn where "pyn = nat py"
    have pn: "px = int pxn" "py = int pyn" "pxn < w" "pyn < h"
      using pxr pyr x y by (simp_all add: pxn_def pyn_def)
    have "pyn * w + pxn < pyn * w + w"
      using pn(3) by simp
    also have "\<dots> = Suc pyn * w"
      by simp
    also have "\<dots> \<le> h * w"
      using pn(4) by (intro mult_le_mono1) simp
    finally have "pyn * w + pxn < length dat"
      by (simp add: len mult.commute)
    moreover have "py * int w + px = int (pyn * w + pxn)"
      by (simp add: pn(1,2))
    ultimately have "rdd dat (py * int w + px) = Fin (dat ! (pyn * w + pxn))"
      by (simp only: rdd_int if_True)
    then show ?thesis
      using t unfolding half kx_def ky_def by blast
  qed
  obtain S W where W: "0 < W"
    and wf: "fold (\<lambda>py. fold (window_cell dat (int w) x y ws kern py) xs) ys (Fin 0, Fin 0) = (Fin S, Fin W)"
    using window_fold_pos [of xs ys kern y ws x dat "int w", OF cell ne] by blast
  obtain a V where a: "0 \<le> a" and V: "0 < V"
    and mf: "fold (\<lambda>py. fold (moment_cell dat dat (int w) x y ws kern (Fin (S / W)) (Fin (S / W)) py) xs) ys
               (Fin 0, Fin 0, Fin 0, Fin 0) = (Fin a, Fin a, Fin a, Fin V)"
    using moment_fold_pos [of xs ys kern y ws x dat "int w" "S / W", OF cell ne] by blast
  have mu: "applyGaussianWindow dat (int w) (int h) x y ws kern = Fin (S / W)"
    unfolding applyGaussianWindow_def Let_def half bx bys xs_def [symmetric] ys_def [symmetric] wf
    using W by simp
  have sg: "Fin a / Fin V = Fin (a / V)"
    using V by simp
  have v: "0 \<le> a / V"
    using a V by simp
  show ?thesis
    unfolding ws_def [symmetric] calculateLocalSSIM_def Let_def mu half bx bys
      xs_def [symmetric] ys_def [symmetric] mf prod.case sg
    by (rule ssim_identical [OF c v])
qed

lemma rd_map_upt: "j < n \<Longrightarrow> rd (map f [0..<n]) (int j) = f j"
  by (simp add: rd_int)

lemma calculateSSIM_identical:
  assumes "length (data img) = width img * height img"
    and "cache_ok kernelCache"
    and "option_or options opt_k1 DEFAULT_K1 * option_or options opt_L DEFAULT_L \<noteq> 0"
    and "option_or options opt_k2 DEFAULT_K2 * option_or options opt_L DEFAULT_L \<noteq> 0"
    and "option_or options opt_windowSize DEFAULT_WINDOW_SIZE = 2 * hs + 1"
    and "2 * hs < width img" and "2 * hs < height img"
  shows "fst (calculateSSIM kernelCache img img options) =
         Inr \<lparr>mssim = Fin 1,
              ssim_map = replicate ((width img - 2 * hs) * (height img - 2 * hs)) (Fin 1)\<rparr>"
proof -
  define w where "w = width img"
  define h where "h = height img"
  define c1 where "c1 = (option_or options opt_k1 DEFAULT_K1 * option_or options opt_L DEFAULT_L)\<^sup>2"
  define c2 where "c2 = (option_or options opt_k2 DEFAULT_K2 * option_or options opt_L DEFAULT_L)\<^sup>2"
  define n where "n = (w - 2 * hs) * (h - 2 * hs)"
  define kc where "kc = getOrCreateKernel kernelCache (2 * hs + 1) DEFAULT_SIGMA"
  have sigma: "DEFAULT_SIGMA \<noteq> 0"
    by (simp add: DEFAULT_SIGMA_def)
  have created: "fst kc = createGaussianKernel (2 * hs + 1) DEFAULT_SIGMA"
    using getOrCreateKernel_ok [OF assms(2), of "2 * hs + 1" DEFAULT_SIGMA "fst kc" "snd kc"]
    by (simp add: kc_def)
  have kern_eq: "fst kc = map (\<lambda>i. Fin (gauss (2 * hs + 1) DEFAULT_SIGMA (i mod (2 * hs + 1)) (i div (2 * hs + 1)) /
                                   gauss_total (2 * hs + 1) DEFAULT_SIGMA)) [0..<(2 * hs + 1) * (2 * hs + 1)]"
    unfolding created by (rule createGaussianKernel_eq [OF sigma]) simp
  have kern: "\<exists>t>0. rd (fst kc) k = Fin t" if "0 \<le> k" "k < (2 * int hs + 1) * (2 * int hs + 1)" for k
  proof -
    define j where "j = nat k"
    have size: "(2 * int hs + 1) * (2 * int hs + 1) = int ((2 * hs + 1) * (2 * hs + 1))"
      by (simp only: of_nat_mult of_nat_add of_nat_numeral of_nat_1)
    have k: "k = int j"
      using that(1) by (simp add: j_def)
    have "int j < int ((2 * hs + 1) * (2 * hs + 1))"
      using that(2) unfolding size k .
    then have j: "k = int j" "j < (2 * hs + 1) * (2 * hs + 1)"
      using k by (simp_all only: of_nat_less_iff)
    have "rd (fst kc) k = Fin (gauss (2 * hs + 1) DEFAULT_SIGMA (j mod (2 * hs + 1)) (j div (2 * hs + 1)) /
                               gauss_total (2 * hs + 1) DEFAULT_SIGMA)"
      unfolding j(1) kern_eq using j(2) by (rule rd_map_upt)
    moreover have "0 < gauss (2 * hs + 1) DEFAULT_SIGMA (j mod (2 * hs + 1)) (j div (2 * hs + 1)) /
                       gauss_total (2 * hs + 1) DEFAULT_SIGMA"
      by (intro divide_pos_pos gauss_pos gauss_total_pos) simp
    ultimately show ?thesis
      by blast
  qed
  have c: "0 < c1" "0 < c2"
    using assms(3,4) unfolding c1_def c2_def by simp_all
  have dims: "2 * hs < w" "2 * hs < h"
    using assms(6,7) by (simp_all add: w_def h_def)
  have wsi: "int (2 * hs + 1) = 2 * int hs + 1" and half: "(2 * int hs + 1) div 2 = int hs"
    and two: "int w - 2 * int hs = int w - int hs - int hs" "int h - 2 * int hs = int h - int hs - int hs"
    by simp_all
  have vw: "0 \<le> int w - int hs - int hs" and vh: "0 \<le> int h - int hs - int hs"
    using dims by linarith+
  have neg: "\<not> (int w - int hs - int hs) * (int h - int hs - int hs) < 0"
    using vw vh by (simp add: not_less)
  have "nat (int h - int hs - int hs) = h - 2 * hs" "nat (int w - int hs - int hs) = w - 2 * hs"
    by linarith+
  then have len: "nat (int h - int hs - int hs) * nat (int w - int hs - int hs) = n"
    by (simp only: n_def mult.commute)
  have pos: "0 < n"
    using dims by (simp add: n_def)
  have one: "calculateLocalSSIM (data img) (data img) (int w) (int h) x y (2 * int hs + 1) (fst kc)
               (Fin c1) (Fin c2) = Fin 1"
    if "int hs \<le> x" "x < int w - int hs" "int hs \<le> y" "y < int h - int hs" for x y
    using assms(1) kern that c unfolding w_def h_def by (rule calculateLocalSSIM_identical)
  have M: "overwrite (replicate (nat ((int w - int hs - int hs) * (int h - int hs - int hs))) (Fin 0))
             (cells (\<lambda>x y. calculateLocalSSIM (data img) (data img) (int w) (int h) x y (2 * int hs + 1)
                              (fst kc) (Fin c1) (Fin c2))
                (int hs) (int w - int hs) (int hs) (int h - int hs)) =
           replicate n (Fin 1)"
    unfolding valid_region_map [OF vw vh] len [symmetric] by (intro cells_const one)
  have mean: "ref_mean (replicate n (Fin 1)) = Fin 1"
    using ref_mean_const [of "replicate n (Fin 1)" 1] mean_ones [OF pos] by simp
  show ?thesis
    unfolding calculateSSIM_result [OF refl refl] Let_def assms(5)
    unfolding kc_def [symmetric] wsi half two w_def [symmetric] h_def [symmetric]
      c1_def [symmetric] c2_def [symmetric] M mean
    using neg by (simp add: n_def)
qed

text \<open>
  C1, as stated for every image at least as large as the window and for any options, fails.
  On an 8 by 8 image with the default options the fast engine (window size 8) scans no
  pixel: the map is empty and the mean is \<open>0 / 0\<close>. With \<open>k2 = 0\<close> the constant \<open>C2\<close> is 0, and
  on a constant image both factors of the quotient are 0; so is it with \<open>k1 = 0\<close> on a
  black image. With the even window size 2 the reference engine visits a window of 3 by 3
  pixels and reads the 2 by 2 kernel beyond its end. With the window size 1 the fast engine
  queries a rectangle of area 0. In all five cases \<open>mssim\<close> is NaN.
\<close>

theorem identical_images_counterexample:
  "calculateSSIMFast \<lparr>width = 8, height = 8, data = replicate 64 128\<rparr>
     \<lparr>width = 8, height = 8, data = replicate 64 128\<rparr> None =
     Inr \<lparr>mssim = NaN, ssim_map = []\<rparr> \<and>
   fst (calculateSSIM Map.empty \<lparr>width = 1, height = 1, data = [128]\<rparr>
         \<lparr>width = 1, height = 1, data = [128]\<rparr>
         (Some \<lparr>opt_k1 = None, opt_k2 = Some 0, opt_windowSize = Some 1, opt_L = None\<rparr>)) =
     Inr \<lparr>mssim = NaN, ssim_map = [NaN]\<rparr> \<and>
   fst (calculateSSIM Map.empty \<lparr>width = 1, height = 1, data = [0]\<rparr>
         \<lparr>width = 1, height = 1, data = [0]\<rparr>
         (Some \<lparr>opt_k1 = Some 0, opt_k2 = None, opt_windowSize = Some 1, opt_L = None\<rparr>)) =
     Inr \<lparr>mssim = NaN, ssim_map = [NaN]\<rparr> \<and>
   fst (calculateSSIM Map.empty \<lparr>width = 3, height = 3, data = replicate 9 128\<rparr>
         \<lparr>width = 3, height = 3, data = replicate 9 128\<rparr>
         (Some \<lparr>opt_k1 = None, opt_k2 = None, opt_windowSize = Some 2, opt_L = None\<rparr>)) =
     Inr \<lparr>mssim = NaN, ssim_map = [NaN]\<rparr> \<and>
   calculateSSIMFast \<lparr>width = 1, height = 1, data = [128]\<rparr>
     \<lparr>width = 1, height = 1, data = [128]\<rparr>
     (Some \<lparr>opt_k1 = None, opt_k2 = None, opt_windowSize = Some 1, opt_L = None\<rparr>) =
     Inr \<lparr>mssim = NaN, ssim_map = [NaN]\<rparr>"
proof -
  have "calculateSSIMFast \<lparr>width = 8, height = 8, data = replicate 64 128\<rparr>
          \<lparr>width = 8, height = 8, data = replicate 64 128\<rparr> None =
        Inr \<lparr>mssim = NaN, ssim_map = []\<rparr>"
    by (simp add: calculateSSIMFast_result Let_def option_or_def
          FAST_DEFAULT_WINDOW_SIZE_def shr1_8 cells_empty overwrite_Nil fast_mean_Nil)
  moreover have "fst (calculateSSIM Map.empty \<lparr>width = 1, height = 1, data = [128]\<rparr>
         \<lparr>width = 1, height = 1, data = [128]\<rparr>
         (Some \<lparr>opt_k1 = None, opt_k2 = Some 0, opt_windowSize = Some 1, opt_L = None\<rparr>)) =
     Inr \<lparr>mssim = NaN, ssim_map = [NaN]\<rparr>"
    by (simp add: calculateSSIM_def scan_def calculateLocalSSIM_def applyGaussianWindow_def
          window_cell_def moment_cell_def new_FloatArray_def getOrCreateKernel_def
          createGaussianKernel_def for_range_def kernel_cell_def wr_def rd_def rdd_def num_def
          Let_def option_or_def DEFAULT_SIGMA_def DEFAULT_K1_def DEFAULT_L_def)
  moreover have "fst (calculateSSIM Map.empty \<lparr>width = 1, height = 1, data = [0]\<rparr>
         \<lparr>width = 1, height = 1, data = [0]\<rparr>
         (Some \<lparr>opt_k1 = Some 0, opt_k2 = None, opt_windowSize = Some 1, opt_L = None\<rparr>)) =
     Inr \<lparr>mssim = NaN, ssim_map = [NaN]\<rparr>"
    by (simp add: calculateSSIM_def scan_def calculateLocalSSIM_def applyGaussianWindow_def
          window_cell_def moment_cell_def new_FloatArray_def getOrCreateKernel_def
          createGaussianKernel_def for_range_def kernel_cell_def wr_def rd_def rdd_def num_def
          Let_def option_or_def DEFAULT_SIGMA_def DEFAULT_K2_def DEFAULT_L_def)
  moreover have "fst (calculateSSIM Map.empty \<lparr>width = 3, height = 3, data = replicate 9 128\<rparr>
         \<lparr>width = 3, height = 3, data = replicate 9 128\<rparr>
         (Some \<lparr>opt_k1 = None, opt_k2 = None, opt_windowSize = Some 2, opt_L = None\<rparr>)) =
     Inr \<lparr>mssim = NaN, ssim_map = [NaN]\<rparr>"
    by (simp add: calculateSSIM_def scan_def calculateLocalSSIM_def applyGaussianWindow_def
          window_cell_def moment_cell_def new_FloatArray_def getOrCreateKernel_def
          createGaussianKernel_def for_range_def kernel_cell_def wr_def rd_def rdd_def num_def
          Let_def option_or_def DEFAULT_SIGMA_def DEFAULT_K1_def DEFAULT_K2_def DEFAULT_L_def
          upt_rec numeral_nat)
  moreover have "calculateSSIMFast \<lparr>width = 1, height = 1, data = [128]\<rparr>
     \<lparr>width = 1, height = 1, data = [128]\<rparr>
     (Some \<lparr>opt_k1 = None, opt_k2 = None, opt_windowSize = Some 1, opt_L = None\<rparr>) =
     Inr \<lparr>mssim = NaN, ssim_map = [NaN]\<rparr>"
    by (simp add: calculateSSIMFast_def scan_def fast_cell_def getMean_def getMeanSq_def p_getMean_def
          corner_mean_def new_IntegralImage_def new_ProductIntegralImage_def buildBoth_def
          buildProduct_def buildBoth_row_def buildBoth_cell_def buildProduct_row_def
          buildProduct_cell_def new_FloatArray_def for_range_def wr_def rd_def rdd_def num_def
          shr1_small Let_def option_or_def sum_unrolled.simps)
  ultimately show ?thesis
    by (simp only: simp_thms)
qed

text \<open>
  C1, amended: let the image hold \<open>width * height\<close> samples and let \<open>k1 * L\<close> and \<open>k2 * L\<close>
  be different from 0, so that \<open>C1\<close> and \<open>C2\<close> are positive. Comparing the image with itself,
  the reference engine returns \<open>mssim = 1\<close> for every odd window size that is at most the
  width and at most the height (the kernel cache holding only kernels that the getter
  built); the fast engine returns an \<open>mssim\<close> within \<open>10\<^sup>-\<^sup>3\<close> of 1 for every window size from
  2 to \<open>2\<^sup>3\<^sup>1 - 1\<close> with \<open>2 * floor(windowSize / 2)\<close> smaller than the width and than the height.
  Numbers are exact reals here, rounding is not part of the model.
\<close>

theorem identical_images_mssim:
  assumes "length (data img) = width img * height img"
    and "option_or options opt_k1 DEFAULT_K1 * option_or options opt_L DEFAULT_L \<noteq> 0"
    and "option_or options opt_k2 DEFAULT_K2 * option_or options opt_L DEFAULT_L \<noteq> 0"
  shows "(cache_ok kernelCache \<and>
          option_or options opt_windowSize DEFAULT_WINDOW_SIZE = 2 * halfSize + 1 \<and>
          2 * halfSize + 1 \<le> width img \<and> 2 * halfSize + 1 \<le> height img \<longrightarrow>
          (\<exists>r. fst (calculateSSIM kernelCache img img options) = Inr r \<and> mssim r = Fin 1)) \<and>
         (option_or options opt_windowSize FAST_DEFAULT_WINDOW_SIZE = windowSize \<and>
          2 \<le> windowSize \<and> windowSize < 2 ^ 31 \<and>
          2 * (windowSize div 2) < width img \<and> 2 * (windowSize div 2) < height img \<longrightarrow>
          (\<exists>r v. calculateSSIMFast img img options = Inr r \<and> mssim r = Fin v \<and> \<bar>v - 1\<bar> < 1 / 1000))"
proof (intro conjI impI)
  assume "cache_ok kernelCache \<and>
          option_or options opt_windowSize DEFAULT_WINDOW_SIZE = 2 * halfSize + 1 \<and>
          2 * halfSize + 1 \<le> width img \<and> 2 * halfSize + 1 \<le> height img"
  then have "cache_ok kernelCache"
    and "option_or options opt_windowSize DEFAULT_WINDOW_SIZE = 2 * halfSize + 1"
    and "2 * halfSize < width img" and "2 * halfSize < height img"
    by simp_all
  then show "\<exists>r. fst (calculateSSIM kernelCache img img options) = Inr r \<and> mssim r = Fin 1"
    using calculateSSIM_identical [OF assms(1) _ assms(2,3)] by simp
next
  assume "option_or options opt_windowSize FAST_DEFAULT_WINDOW_SIZE = windowSize \<and>
          2 \<le> windowSize \<and> windowSize < 2 ^ 31 \<and>
          2 * (windowSize div 2) < width img \<and> 2 * (windowSize div 2) < height img"
  then have "calculateSSIMFast img img options =
         Inr \<lparr>mssim = Fin 1,
              ssim_map = replicate ((width img - 2 * (windowSize div 2)) * (height img - 2 * (windowSize div 2)))
                           (Fin 1)\<rparr>"
    by (intro calculateSSIMFast_identical assms) simp_all
  then show "\<exists>r v. calculateSSIMFast img img options = Inr r \<and> mssim r = Fin v \<and> \<bar>v - 1\<bar> < 1 / 1000"
    by simp
qed

text \<open>
  The amended claim at an 11 by 11 ramp image with the default options: window size 11 for
  the reference engine, 8 for the fast engine.
\<close>

theorem identical_images_mssim_witness:
  "(\<exists>r. fst (calculateSSIM Map.empty \<lparr>width = 11, height = 11, data = map real [0..<121]\<rparr>
              \<lparr>width = 11, height = 11, data = map real [0..<121]\<rparr> None) = Inr r \<and>
        mssim r = Fin 1) \<and>
   (\<exists>r v. calculateSSIMFast \<lparr>width = 11, height = 11, data = map real [0..<121]\<rparr>
              \<lparr>width = 11, height = 11, data = map real [0..<121]\<rparr> None = Inr r \<and>
          mssim r = Fin v \<and> \<bar>v - 1\<bar> < 1 / 1000)"
proof -
  define img where "img = \<lparr>width = 11, height = 11, data = map real [0..<121]\<rparr>"
  have len: "length (data img) = width img * height img"
    by (simp add: img_def)
  have k1: "option_or None opt_k1 DEFAULT_K1 * option_or None opt_L DEFAULT_L \<noteq> 0"
    and k2: "option_or None opt_k2 DEFAULT_K2 * option_or None opt_L DEFAULT_L \<noteq> 0"
    by (simp_all add: option_or_def DEFAULT_K1_def DEFAULT_K2_def DEFAULT_L_def)
  have ref: "cache_ok Map.empty \<and>
          option_or None opt_windowSize DEFAULT_WINDOW_SIZE = 2 * 5 + 1 \<and>
          2 * 5 + 1 \<le> width img \<and> 2 * 5 + 1 \<le> height img"
    by (simp add: cache_ok_def option_or_def DEFAULT_WINDOW_SIZE_def img_def)
  have fast: "option_or None opt_windowSize FAST_DEFAULT_WINDOW_SIZE = 8 \<and>
          2 \<le> (8::nat) \<and> (8::nat) < 2 ^ 31 \<and>
          2 * (8 div 2) < width img \<and> 2 * (8 div 2) < height img"
    by (simp add: option_or_def FAST_DEFAULT_WINDOW_SIZE_def img_def)
  show ?thesis
    using identical_images_mssim [OF len k1 k2, of Map.empty 5 8] ref fast
    unfolding img_def by blast
qed

end
